theory Spec2Isabelle
  imports Main
begin

section \<open>Go strings and the library functions the authorizer calls\<close>

text \<open>
  A Go string is a sequence of bytes, here a \<open>string\<close> (a list of \<open>char\<close>). An error
  value made by \<open>fmt.Errorf\<close> is represented by its message.
\<close>

type_synonym error = string

datatype panic = NilPointerDereference

text \<open>
  \<open>strings.ToUpper\<close> and \<open>strings.ToLower\<close>, their ASCII path: a letter of the other case
  is moved by the distance between \<open>a\<close> and \<open>A\<close>, every other byte is kept. On a string
  with a byte from 128 on, Go decodes runes and maps them with its Unicode tables, which
  are not part of this development; the definitions below are the functions of Go on ASCII
  strings only (see \<open>ascii\<close>).
\<close>

definition upper_byte :: "char \<Rightarrow> char" where
  "upper_byte c =
     (let n = (of_char c :: nat) in if 97 \<le> n \<and> n \<le> 122 then char_of (n - 32) else c)"

definition lower_byte :: "char \<Rightarrow> char" where
  "lower_byte c =
     (let n = (of_char c :: nat) in if 65 \<le> n \<and> n \<le> 90 then char_of (n + 32) else c)"

definition ToUpper :: "string \<Rightarrow> string" where
  "ToUpper s = map upper_byte s"

definition ToLower :: "string \<Rightarrow> string" where
  "ToLower s = map lower_byte s"

text \<open>
  The strings on which the three case functions above and below are the functions of Go:
  those of ASCII bytes only. The HTTP methods and the header names that \<open>net/http\<close>
  hands to a handler are tokens, hence ASCII. Every statement below whose truth depends on
  how a case function computes assumes this of the strings it is applied to.
\<close>

definition ascii :: "string \<Rightarrow> bool" where
  "ascii s = list_all (\<lambda>c. (of_char c :: nat) < 128) s"

text \<open>
  \<open>strings.EqualFold\<close>, the byte loop of its ASCII path: two bytes agree when they are
  equal, or when the smaller one is an upper-case letter and the larger one is that letter
  in lower case; the strings must end together. This is \<open>strings.EqualFold\<close> on ASCII
  strings only.
\<close>

definition fold_byte_eq :: "char \<Rightarrow> char \<Rightarrow> bool" where
  "fold_byte_eq s t =
     (let sr = min (of_char s :: nat) (of_char t); tr = max (of_char s :: nat) (of_char t)
      in tr = sr \<or> (65 \<le> sr \<and> sr \<le> 90 \<and> tr = sr + 32))"

fun EqualFold :: "string \<Rightarrow> string \<Rightarrow> bool" where
  "EqualFold [] [] = True"
| "EqualFold (s # ss) (t # ts) = (fold_byte_eq s t \<and> EqualFold ss ts)"
| "EqualFold _ _ = False"

text \<open>
  \<open>strings.Split(s, sep)\<close> for a separator of one byte (the authorizer only splits at
  \<open>/\<close>): the pieces between the separators, so a string with \<open>n\<close> separators has
  \<open>n + 1\<close> pieces and the empty string has one empty piece.
\<close>

fun Split :: "string \<Rightarrow> char \<Rightarrow> string list" where
  "Split [] sep = [[]]"
| "Split (c # cs) sep =
     (if c = sep then [] # Split cs sep
      else (case Split cs sep of [] \<Rightarrow> [[c]] | x # xs \<Rightarrow> (c # x) # xs))"

text \<open>
  \<open>url.PathUnescape\<close>: every \<open>%\<close> must be followed by two hexadecimal digits and the
  three bytes become the byte they encode; anything else is kept. A \<open>%\<close> that is not
  followed by two hexadecimal digits is an error (\<open>None\<close>).
\<close>

definition ishex :: "char \<Rightarrow> bool" where
  "ishex c =
     (let n = (of_char c :: nat)
      in (48 \<le> n \<and> n \<le> 57) \<or> (97 \<le> n \<and> n \<le> 102) \<or> (65 \<le> n \<and> n \<le> 70))"

definition unhex :: "char \<Rightarrow> nat" where
  "unhex c =
     (let n = (of_char c :: nat)
      in if 48 \<le> n \<and> n \<le> 57 then n - 48
         else if 97 \<le> n \<and> n \<le> 102 then n - 97 + 10
         else if 65 \<le> n \<and> n \<le> 70 then n - 65 + 10
         else 0)"

fun PathUnescape :: "string \<Rightarrow> string option" where
  "PathUnescape [] = Some []"
| "PathUnescape (c # cs) =
     (if c = CHR ''%'' then
        (case cs of
           a # b # rest \<Rightarrow>
             if ishex a \<and> ishex b
             then map_option ((#) (char_of (unhex a * 16 + unhex b))) (PathUnescape rest)
             else None
         | _ \<Rightarrow> None)
      else map_option ((#) c) (PathUnescape cs))"

text \<open>
  How \<open>fmt\<close> prints a slice of strings with \<open>%+v\<close>: the elements separated by one space,
  in square brackets.
\<close>

fun join_space :: "string list \<Rightarrow> string" where
  "join_space [] = []"
| "join_space [x] = x"
| "join_space (x # y # ys) = x @ '' '' @ join_space (y # ys)"

definition format_strings :: "string list \<Rightarrow> string" where
  "format_strings xs = ''['' @ join_space xs @ '']''"

section \<open>Requests, configuration and access reviews\<close>

text \<open>
  \<open>http.Header\<close> is a Go map from header names to value lists. A lookup \<open>headers[name]\<close>
  depends on the map only. A \<open>range\<close> loop visits the entries of the map in an order
  that Go leaves unspecified, and each loop starts an iteration of its own: two loops over
  the same map may visit it in different orders. A header value is therefore given by the
  entries of the map (\<open>map_of\<close> is the lookup) and by the order in which each \<open>range\<close>
  loop of a run visits them: \<open>visits headers i\<close> for the loop number \<open>i\<close>. In a
  well-formed header value the keys are distinct and every visit goes through the entries
  of the map, each once.
\<close>

type_synonym header_entries = "(string \<times> string list) list"

record http_Header =
  entries :: header_entries
  visits :: "nat \<Rightarrow> header_entries"

definition wf_Header :: "http_Header \<Rightarrow> bool" where
  "wf_Header headers =
     (distinct (map fst (entries headers)) \<and>
      (\<forall>i. distinct (map fst (visits headers i)) \<and>
           set (visits headers i) = set (entries headers)))"

type_synonym Certificate = string

record ConnectionState =
  PeerCertificates :: "Certificate list"
  VerifiedChains :: "Certificate list list"

record url_URL =
  Path :: string

record http_Request =
  Method :: string
  URL :: "url_URL option"
  Header :: http_Header
  TLS :: "ConnectionState option"

record restful_Request =
  Request :: "http_Request option"

text \<open>
  Modelled from the spec: the type \<open>AuthConfig\<close> that \<open>GetAuthConfig\<close> returns is declared
  outside the files at hand; the Config Snapshot of the specification has these three
  ordered lists of header names.
\<close>

record AuthConfig =
  UserHeaders :: "string list"
  GroupHeaders :: "string list"
  ExtraPrefixHeaders :: "string list"

record ResourceAttributes =
  Namespace :: string
  Verb :: string
  Group :: string
  Version :: string
  Resource :: string

record SubjectAccessReviewSpec =
  ResourceAttributes :: "ResourceAttributes option"
  User :: string
  Groups :: "string list"
  Extra :: "string \<rightharpoonup> string list"

record SubjectAccessReviewStatus =
  Allowed :: bool
  Reason :: string

record SubjectAccessReview =
  Spec :: SubjectAccessReviewSpec
  Status :: SubjectAccessReviewStatus

text \<open>
  The authorizer holds the configuration watcher, given by the snapshot its
  \<open>GetAuthConfig\<close> returns, and the client of the policy service, given by what its
  \<open>Create\<close> answers to a review: an error or the reviewed object.
\<close>

record authorizor =
  authConfigWatcher :: AuthConfig
  subjectAccessReview :: "SubjectAccessReview \<Rightarrow> error + SubjectAccessReview"

text \<open>
  Modelled from the spec: the constant \<open>uploadTokenGroup\<close> is declared outside the files at
  hand; it is the single API group the service serves, the one of the URL example in
  \<open>generateAccessReview\<close>.
\<close>

definition uploadTokenGroup :: string where
  "uploadTokenGroup = ''upload.cdi.kubevirt.io''"

section \<open>The authorizer\<close>

text \<open>The segments of a URL path, \<open>strings.Split(url.Path, "/")\<close> in the source.\<close>

abbreviation pathSplit :: "url_URL \<Rightarrow> string list" where
  "pathSplit url \<equiv> Split (Path url) CHR ''/''"

text \<open>
  The loop of \<open>matchHeaders\<close> over the names still to try; \<open>toMatch\<close> is the whole list,
  which the error text prints when the loop ends without a match.
\<close>

fun matchHeaders_range :: "http_Header \<Rightarrow> string list \<Rightarrow> string list \<Rightarrow> error + string list" where
  "matchHeaders_range headers [] toMatch =
     Inl (''one of these headers required for authorization: '' @ format_strings toMatch)"
| "matchHeaders_range headers (header # rest) toMatch =
     (case map_of (entries headers) header of
        Some value \<Rightarrow> Inr value
      | None \<Rightarrow> matchHeaders_range headers rest toMatch)"

definition matchHeaders :: "http_Header \<Rightarrow> string list \<Rightarrow> error + string list" where
  "matchHeaders headers toMatch = matchHeaders_range headers toMatch toMatch"

definition hasPrefixIgnoreCase :: "string \<Rightarrow> string \<Rightarrow> bool" where
  "hasPrefixIgnoreCase s prefix =
     (length s \<ge> length prefix \<and> EqualFold (take (length prefix) s) prefix)"

definition unescapeExtraKey :: "string \<Rightarrow> string" where
  "unescapeExtraKey encodedKey =
     (case PathUnescape encodedKey of None \<Rightarrow> encodedKey | Some key \<Rightarrow> key)"

text \<open>
  The key under which \<open>getUserExtras\<close> stores a header \<open>k\<close> that matches \<open>prefix\<close>:
  \<open>unescapeExtraKey(strings.ToLower(k[len(prefix):]))\<close>.
\<close>

abbreviation extraKey :: "string \<Rightarrow> string \<Rightarrow> string" where
  "extraKey prefix k \<equiv> unescapeExtraKey (ToLower (drop (length prefix) k))"

text \<open>
  The inner loop of \<open>getUserExtras\<close>: one pass for one prefix, over the entries in the
  order in which this loop visits them.
\<close>

fun extras_range :: "string \<Rightarrow> header_entries \<Rightarrow> (string \<rightharpoonup> string list) \<Rightarrow> (string \<rightharpoonup> string list)" where
  "extras_range prefix [] extras = extras"
| "extras_range prefix ((k, v) # headers) extras =
     extras_range prefix headers
       (if hasPrefixIgnoreCase k prefix
        then extras(unescapeExtraKey (ToLower (drop (length prefix) k)) \<mapsto> v)
        else extras)"

text \<open>
  The outer loop: the prefixes in the order of the configuration. The pass for each
  prefix is a \<open>range\<close> loop of its own, with its own visiting order; \<open>i\<close> counts the
  loops.
\<close>

fun extras_prefixes :: "string list \<Rightarrow> http_Header \<Rightarrow> nat \<Rightarrow> (string \<rightharpoonup> string list) \<Rightarrow> (string \<rightharpoonup> string list)" where
  "extras_prefixes [] headers i extras = extras"
| "extras_prefixes (prefix # toMatch) headers i extras =
     extras_prefixes toMatch headers (Suc i) (extras_range prefix (visits headers i) extras)"

definition getUserExtras :: "http_Header \<Rightarrow> string list \<Rightarrow> (string \<rightharpoonup> string list)" where
  "getUserExtras headers toMatch = extras_prefixes toMatch headers 0 Map.empty"

definition verbMap :: "string \<rightharpoonup> string" where
  "verbMap = [''POST'' \<mapsto> ''create'']"

definition generateAccessReview :: "authorizor \<Rightarrow> restful_Request \<Rightarrow> error + SubjectAccessReview" where
  "generateAccessReview a req =
     (case Request req of
        None \<Rightarrow> Inl ''empty http request''
      | Some httpRequest \<Rightarrow>
        (case URL httpRequest of
           None \<Rightarrow> Inl ''no URL in http request''
         | Some url \<Rightarrow>
           (let headers = Header httpRequest;
                pathSplit = Split (Path url) CHR ''/''
            in if length pathSplit \<noteq> 7 then Inl (''unknown api endpoint '' @ Path url)
               else
                 (let authConfig = authConfigWatcher a;
                      group = pathSplit ! 2;
                      version = pathSplit ! 3;
                      namespace = pathSplit ! 5;
                      resource = pathSplit ! 6;
                      userExtras = getUserExtras headers (ExtraPrefixHeaders authConfig)
                  in if group \<noteq> uploadTokenGroup then Inl (''unknown api group '' @ group)
                     else if resource \<noteq> ''uploadtokenrequests''
                     then Inl (''unknown resource type '' @ resource)
                     else
                       (case matchHeaders headers (UserHeaders authConfig) of
                          Inl err \<Rightarrow> Inl err
                        | Inr users \<Rightarrow>
                          if length users = 0 then Inl ''no user header found''
                          else
                            (case matchHeaders headers (GroupHeaders authConfig) of
                               Inl err \<Rightarrow> Inl err
                             | Inr userGroups \<Rightarrow>
                               (let method = ToUpper (Method httpRequest)
                                in case verbMap method of
                                     None \<Rightarrow> Inl (''unsupported HTTP method '' @ method)
                                   | Some verb \<Rightarrow>
                                     Inr \<lparr>Spec = \<lparr>ResourceAttributes =
                                                   Some \<lparr>Namespace = namespace, Verb = verb,
                                                         Group = group, Version = version,
                                                         Resource = resource\<rparr>,
                                                 User = users ! 0,
                                                 Groups = userGroups,
                                                 Extra = userExtras\<rparr>,
                                          Status = \<lparr>Allowed = False, Reason = []\<rparr>\<rparr>)))))))"

definition isInfoEndpoint :: "restful_Request \<Rightarrow> bool" where
  "isInfoEndpoint req =
     (case Request req of
        None \<Rightarrow> False
      | Some httpRequest \<Rightarrow>
        (case URL httpRequest of
           None \<Rightarrow> False
         | Some url \<Rightarrow>
           (let pathSplit = Split (Path url) CHR ''/''
            in length pathSplit \<le> 4 \<or> (length pathSplit > 4 \<and> pathSplit ! 4 = ''version''))))"

text \<open>
  \<open>isAuthenticated\<close> first logs \<open>req.Request.TLS\<close>: the argument is evaluated before the
  check for a missing request, so a request without an HTTP request panics there.
\<close>

definition isAuthenticated :: "restful_Request \<Rightarrow> panic + bool" where
  "isAuthenticated req =
     (case Request req of
        None \<Rightarrow> Inl NilPointerDereference
      | Some httpRequest \<Rightarrow>
        (case TLS httpRequest of
           None \<Rightarrow> Inr False
         | Some tls \<Rightarrow>
           if length (PeerCertificates tls) = 0 \<or> length (VerifiedChains tls) = 0
           then Inr False else Inr True))"

definition isAllowed :: "SubjectAccessReview \<Rightarrow> bool \<times> string" where
  "isAllowed result =
     (if Allowed (Status result) then (True, []) else (False, Reason (Status result)))"

text \<open>
  \<open>Authorize\<close> returns the triple of the source (allowed, reason, error) together with
  the reviews it handed to \<open>Create\<close> of the policy service, in order; or it panics.
\<close>

type_synonym decision = "bool \<times> string \<times> error option"

definition Authorize :: "authorizor \<Rightarrow> restful_Request \<Rightarrow> panic + (decision \<times> SubjectAccessReview list)" where
  "Authorize a req =
     (if isInfoEndpoint req then Inr ((True, [], None), [])
      else
        (case isAuthenticated req of
           Inl p \<Rightarrow> Inl p
         | Inr False \<Rightarrow> Inr ((False, ''request is not authenticated'', None), [])
         | Inr True \<Rightarrow>
           (case generateAccessReview a req of
              Inl err \<Rightarrow> Inr ((False, err, None), [])
            | Inr r \<Rightarrow>
              (case subjectAccessReview a r of
                 Inl err \<Rightarrow> Inr ((False, ''internal server error'', Some err), [r])
               | Inr result \<Rightarrow>
                 (case isAllowed result of
                    (allowed, reason) \<Rightarrow> Inr ((allowed, reason, None), [r]))))))"

section \<open>Example requests\<close>

text \<open>
  The default header names are the constants \<open>userHeader\<close>, \<open>groupHeader\<close> and
  \<open>userExtraHeaderPrefix\<close> of the source. The examples below are used to run the
  definitions on concrete requests.
\<close>

definition default_AuthConfig :: AuthConfig where
  "default_AuthConfig =
     \<lparr>UserHeaders = [''X-Remote-User''], GroupHeaders = [''X-Remote-Group''],
      ExtraPrefixHeaders = [''X-Remote-Extra-'']\<rparr>"

definition policy_allows :: "SubjectAccessReview \<Rightarrow> error + SubjectAccessReview" where
  "policy_allows r = Inr (r\<lparr>Status := \<lparr>Allowed = True, Reason = []\<rparr>\<rparr>)"

definition policy_fails :: "SubjectAccessReview \<Rightarrow> error + SubjectAccessReview" where
  "policy_fails r = Inl ''connection refused''"

definition allowing_authorizor :: authorizor where
  "allowing_authorizor =
     \<lparr>authConfigWatcher = default_AuthConfig, subjectAccessReview = policy_allows\<rparr>"

definition failing_authorizor :: authorizor where
  "failing_authorizor =
     \<lparr>authConfigWatcher = default_AuthConfig, subjectAccessReview = policy_fails\<rparr>"

text \<open>
  A header value whose loops all visit the entries in one given order, and the one whose
  loops visit them in the order in which they are written.
\<close>

definition visited_headers :: "header_entries \<Rightarrow> header_entries \<Rightarrow> http_Header" where
  "visited_headers es order = \<lparr>entries = es, visits = (\<lambda>i. order)\<rparr>"

definition ordered_headers :: "header_entries \<Rightarrow> http_Header" where
  "ordered_headers es = visited_headers es es"

definition mk_Request ::
  "string \<Rightarrow> string \<Rightarrow> http_Header \<Rightarrow> ConnectionState option \<Rightarrow> restful_Request" where
  "mk_Request m p hs tls =
     \<lparr>Request = Some \<lparr>Method = m, URL = Some \<lparr>Path = p\<rparr>, Header = hs, TLS = tls\<rparr>\<rparr>"

definition verified_peer :: "ConnectionState option" where
  "verified_peer =
     Some \<lparr>PeerCertificates = [''client''], VerifiedChains = [[''client'', ''ca'']]\<rparr>"

definition upload_path :: string where
  "upload_path =
     ''/apis/upload.cdi.kubevirt.io/v1beta1/namespaces/default/uploadtokenrequests''"

definition alice_headers :: http_Header where
  "alice_headers =
     ordered_headers [(''X-Remote-User'', [''alice'']), (''X-Remote-Group'', [''g1'', ''g2''])]"

definition alice_review :: SubjectAccessReview where
  "alice_review =
     \<lparr>Spec = \<lparr>ResourceAttributes =
                 Some \<lparr>Namespace = ''default'', Verb = ''create'',
                       Group = ''upload.cdi.kubevirt.io'', Version = ''v1beta1'',
                       Resource = ''uploadtokenrequests''\<rparr>,
               User = ''alice'', Groups = [''g1'', ''g2''], Extra = Map.empty\<rparr>,
      Status = \<lparr>Allowed = False, Reason = []\<rparr>\<rparr>"

section \<open>Facts about the library functions\<close>

lemmas byte_eval = upper_byte_def lower_byte_def fold_byte_eq_def ishex_def unhex_def
  char_of_def bit_Suc_0_iff

lemmas header_eval = ordered_headers_def visited_headers_def

lemma Split_not_Nil: "Split s sep \<noteq> []"
  by (induction s) (auto split: list.splits)

lemma Split_no_sep: "sep \<notin> set s \<Longrightarrow> Split s sep = [s]"
  by (induction s) auto

lemma Split_append_sep: "sep \<notin> set a \<Longrightarrow> Split (a @ sep # b) sep = a # Split b sep"
  by (induction a) auto

lemma length_Split: "length (Split s sep) = Suc (length (filter (\<lambda>c. c = sep) s))"
  by (induction s) (auto simp: Split_not_Nil split: list.splits)

section \<open>The gates\<close>

lemma isInfoEndpoint_Some:
  "Request req = Some h \<Longrightarrow> URL h = Some u \<Longrightarrow>
   isInfoEndpoint req =
     (length (Split (Path u) CHR ''/'') \<le> 4 \<or>
      (4 < length (Split (Path u) CHR ''/'') \<and> Split (Path u) CHR ''/'' ! 4 = ''version''))"
  by (simp add: isInfoEndpoint_def Let_def)

lemma isInfoEndpoint_no_URL:
  "Request req = None \<or> (\<exists>h. Request req = Some h \<and> URL h = None) \<Longrightarrow> \<not> isInfoEndpoint req"
  by (auto simp: isInfoEndpoint_def)

lemma isAuthenticated_Some:
  "Request req = Some h \<Longrightarrow>
   isAuthenticated req =
     Inr (\<exists>tls. TLS h = Some tls \<and> PeerCertificates tls \<noteq> [] \<and> VerifiedChains tls \<noteq> [])"
  by (auto simp: isAuthenticated_def split: option.splits)

lemma Authorize_info:
  "isInfoEndpoint req \<Longrightarrow> Authorize a req = Inr ((True, [], None), [])"
  by (simp add: Authorize_def)

lemma Authorize_unauthenticated:
  "\<not> isInfoEndpoint req \<Longrightarrow> isAuthenticated req = Inr False \<Longrightarrow>
   Authorize a req = Inr ((False, ''request is not authenticated'', None), [])"
  by (simp add: Authorize_def)

lemma Authorize_malformed:
  "\<not> isInfoEndpoint req \<Longrightarrow> isAuthenticated req = Inr True \<Longrightarrow>
   generateAccessReview a req = Inl err \<Longrightarrow>
   Authorize a req = Inr ((False, err, None), [])"
  by (simp add: Authorize_def)

lemma Authorize_error_cases:
  "Authorize a req = Inr ((allowed, reason, Some e), sent) \<Longrightarrow>
   \<exists>r. \<not> isInfoEndpoint req \<and> isAuthenticated req = Inr True \<and>
       generateAccessReview a req = Inr r \<and> subjectAccessReview a r = Inl e \<and>
       sent = [r] \<and> \<not> allowed \<and> reason = ''internal server error''"
  by (auto simp: Authorize_def split: if_splits sum.splits bool.splits prod.splits)

section \<open>The branches of generateAccessReview\<close>

lemma matchHeaders_range_none:
  "\<forall>n\<in>set names. map_of (entries hs) n = None \<Longrightarrow>
   matchHeaders_range hs names t =
     Inl (''one of these headers required for authorization: '' @ format_strings t)"
  by (induction names) auto

lemma matchHeaders_range_Inr:
  "matchHeaders_range hs names t = Inr v \<Longrightarrow> \<exists>n\<in>set names. map_of (entries hs) n = Some v"
  by (induction names) (auto split: option.splits)

lemma matchHeaders_none:
  "\<forall>n\<in>set names. map_of (entries hs) n = None \<Longrightarrow>
   matchHeaders hs names =
     Inl (''one of these headers required for authorization: '' @ format_strings names)"
  unfolding matchHeaders_def by (rule matchHeaders_range_none)

lemma matchHeaders_Inr:
  "matchHeaders hs names = Inr v \<Longrightarrow> \<exists>n\<in>set names. map_of (entries hs) n = Some v"
  unfolding matchHeaders_def by (rule matchHeaders_range_Inr)

lemma matchHeaders_Inl:
  "matchHeaders hs names = Inl e \<Longrightarrow>
   (\<forall>n\<in>set names. map_of (entries hs) n = None) \<and>
   e = ''one of these headers required for authorization: '' @ format_strings names"
proof -
  have "matchHeaders_range hs ns t = Inl e \<Longrightarrow>
        (\<forall>n\<in>set ns. map_of (entries hs) n = None) \<and>
        e = ''one of these headers required for authorization: '' @ format_strings t" for ns t
    by (induction ns) (auto split: option.splits)
  then show "matchHeaders hs names = Inl e \<Longrightarrow> ?thesis"
    unfolding matchHeaders_def by blast
qed

lemma gar_bad_length:
  "Request req = Some h \<Longrightarrow> URL h = Some u \<Longrightarrow> length (Split (Path u) CHR ''/'') \<noteq> 7 \<Longrightarrow>
   generateAccessReview a req = Inl (''unknown api endpoint '' @ Path u)"
  by (simp add: generateAccessReview_def Let_def)

lemma gar_bad_group:
  "Request req = Some h \<Longrightarrow> URL h = Some u \<Longrightarrow> length (Split (Path u) CHR ''/'') = 7 \<Longrightarrow>
   Split (Path u) CHR ''/'' ! 2 \<noteq> uploadTokenGroup \<Longrightarrow>
   generateAccessReview a req = Inl (''unknown api group '' @ Split (Path u) CHR ''/'' ! 2)"
  by (simp add: generateAccessReview_def Let_def)

lemma gar_bad_resource:
  "Request req = Some h \<Longrightarrow> URL h = Some u \<Longrightarrow> length (Split (Path u) CHR ''/'') = 7 \<Longrightarrow>
   Split (Path u) CHR ''/'' ! 2 = uploadTokenGroup \<Longrightarrow>
   Split (Path u) CHR ''/'' ! 6 \<noteq> ''uploadtokenrequests'' \<Longrightarrow>
   generateAccessReview a req = Inl (''unknown resource type '' @ Split (Path u) CHR ''/'' ! 6)"
  by (simp add: generateAccessReview_def Let_def)

lemma gar_identity:
  "Request req = Some h \<Longrightarrow> URL h = Some u \<Longrightarrow> length (Split (Path u) CHR ''/'') = 7 \<Longrightarrow>
   Split (Path u) CHR ''/'' ! 2 = uploadTokenGroup \<Longrightarrow>
   Split (Path u) CHR ''/'' ! 6 = ''uploadtokenrequests'' \<Longrightarrow>
   generateAccessReview a req =
     (case matchHeaders (Header h) (UserHeaders (authConfigWatcher a)) of
        Inl err \<Rightarrow> Inl err
      | Inr users \<Rightarrow>
        if users = [] then Inl ''no user header found''
        else
          (case matchHeaders (Header h) (GroupHeaders (authConfigWatcher a)) of
             Inl err \<Rightarrow> Inl err
           | Inr userGroups \<Rightarrow>
             (case verbMap (ToUpper (Method h)) of
                None \<Rightarrow> Inl (''unsupported HTTP method '' @ ToUpper (Method h))
              | Some verb \<Rightarrow>
                Inr \<lparr>Spec = \<lparr>ResourceAttributes =
                              Some \<lparr>Namespace = Split (Path u) CHR ''/'' ! 5, Verb = verb,
                                    Group = Split (Path u) CHR ''/'' ! 2,
                                    Version = Split (Path u) CHR ''/'' ! 3,
                                    Resource = Split (Path u) CHR ''/'' ! 6\<rparr>,
                            User = users ! 0,
                            Groups = userGroups,
                            Extra = getUserExtras (Header h)
                                      (ExtraPrefixHeaders (authConfigWatcher a))\<rparr>,
                     Status = \<lparr>Allowed = False, Reason = []\<rparr>\<rparr>)))"
  by (auto simp: generateAccessReview_def Let_def split: sum.splits option.splits)

section \<open>The examples, evaluated\<close>

lemma split_upload_path:
  "Split upload_path CHR ''/'' =
     [[], ''apis'', ''upload.cdi.kubevirt.io'', ''v1beta1'', ''namespaces'', ''default'',
      ''uploadtokenrequests'']"
  by (simp add: upload_path_def)

lemma extras_alice: "getUserExtras alice_headers [''X-Remote-Extra-''] = Map.empty"
  by (simp add: getUserExtras_def alice_headers_def header_eval hasPrefixIgnoreCase_def
      byte_eval)

lemma match_alice:
  "matchHeaders alice_headers [''X-Remote-User''] = Inr [''alice'']"
  "matchHeaders alice_headers [''X-Remote-Group''] = Inr [''g1'', ''g2'']"
  by (simp_all add: matchHeaders_def alice_headers_def header_eval)

lemma ToUpper_examples:
  "ToUpper ''POST'' = ''POST''" "ToUpper ''post'' = ''POST''" "ToUpper ''GET'' = ''GET''"
  by (simp_all add: ToUpper_def byte_eval)

lemma gar_alice:
  "authConfigWatcher a = default_AuthConfig \<Longrightarrow>
   generateAccessReview a (mk_Request ''POST'' upload_path alice_headers tls) = Inr alice_review"
  by (simp add: generateAccessReview_def mk_Request_def split_upload_path extras_alice
      default_AuthConfig_def uploadTokenGroup_def verbMap_def ToUpper_examples alice_review_def
      Let_def match_alice)

lemma gar_alice_GET:
  "authConfigWatcher a = default_AuthConfig \<Longrightarrow>
   generateAccessReview a (mk_Request ''GET'' upload_path alice_headers tls) =
     Inl ''unsupported HTTP method GET''"
  by (simp add: generateAccessReview_def mk_Request_def split_upload_path extras_alice
      default_AuthConfig_def uploadTokenGroup_def verbMap_def ToUpper_examples
      Let_def match_alice)

lemma upload_path_protected: "\<not> isInfoEndpoint (mk_Request m upload_path hs tls)"
  by (simp add: isInfoEndpoint_def mk_Request_def split_upload_path)

lemma verified_peer_authenticated: "isAuthenticated (mk_Request m p hs verified_peer) = Inr True"
  by (simp add: isAuthenticated_def mk_Request_def verified_peer_def)

lemma no_TLS_unauthenticated: "isAuthenticated (mk_Request m p hs None) = Inr False"
  by (simp add: isAuthenticated_def mk_Request_def)

lemma Authorize_alice_policy_fails:
  "Authorize failing_authorizor (mk_Request ''POST'' upload_path alice_headers verified_peer) =
     Inr ((False, ''internal server error'', Some ''connection refused''), [alice_review])"
  by (simp add: Authorize_def upload_path_protected verified_peer_authenticated gar_alice
      failing_authorizor_def policy_fails_def)

section \<open>The order of the gates\<close>

text \<open>
  C6: a request whose URL path splits into four or fewer segments, or whose fifth segment
  is \<open>version\<close>, is allowed with an empty reason and no error, and nothing is sent to the
  policy service, whatever its headers, its method and its transport state: the check for an
  information endpoint is the first thing \<open>Authorize\<close> does.
\<close>

theorem Authorize_public_first:
  assumes "Request req = Some h" and "URL h = Some u"
    and "length (Split (Path u) CHR ''/'') \<le> 4 \<or>
         (4 < length (Split (Path u) CHR ''/'') \<and> Split (Path u) CHR ''/'' ! 4 = ''version'')"
  shows "Authorize a req = Inr ((True, [], None), [])"
proof -
  from assms have "isInfoEndpoint req"
    by (simp add: isInfoEndpoint_Some)
  then show ?thesis
    by (rule Authorize_info)
qed

theorem Authorize_public_first_witness:
  "Request (mk_Request ''POST'' ''/apis/upload.cdi.kubevirt.io/v1beta1'' (ordered_headers [])
        None) =
     Some \<lparr>Method = ''POST'', URL = Some \<lparr>Path = ''/apis/upload.cdi.kubevirt.io/v1beta1''\<rparr>,
           Header = ordered_headers [], TLS = None\<rparr> \<and>
   length (Split ''/apis/upload.cdi.kubevirt.io/v1beta1'' CHR ''/'') \<le> 4 \<and>
   Authorize failing_authorizor
     (mk_Request ''POST'' ''/apis/upload.cdi.kubevirt.io/v1beta1'' (ordered_headers [])
        None) =
     Inr ((True, [], None), [])"
  using Authorize_public_first [of
     "mk_Request ''POST'' ''/apis/upload.cdi.kubevirt.io/v1beta1'' (ordered_headers [])
        None"
     "\<lparr>Method = ''POST'', URL = Some \<lparr>Path = ''/apis/upload.cdi.kubevirt.io/v1beta1''\<rparr>,
       Header = ordered_headers [], TLS = None\<rparr>"
     "\<lparr>Path = ''/apis/upload.cdi.kubevirt.io/v1beta1''\<rparr>" failing_authorizor]
  by (simp add: mk_Request_def)

text \<open>
  C5 does not hold for every request without a verified peer certificate chain: an
  information endpoint is allowed before the authentication is looked at. The request
  below has no transport state and the path \<open>/apis\<close>.
\<close>

theorem Authorize_unauthenticated_public_counterexample:
  "TLS \<lparr>Method = ''GET'', URL = Some \<lparr>Path = ''/apis''\<rparr>, Header = ordered_headers [],
        TLS = None\<rparr> = None \<and>
   Authorize failing_authorizor
     \<lparr>Request = Some \<lparr>Method = ''GET'', URL = Some \<lparr>Path = ''/apis''\<rparr>,
                      Header = ordered_headers [], TLS = None\<rparr>\<rparr> =
     Inr ((True, [], None), [])"
  by (simp add: Authorize_def isInfoEndpoint_def)

text \<open>
  C5, as the code has it: a request that has an HTTP request, is not an information
  endpoint and lacks a verified peer certificate chain (no transport state, no peer
  certificate or no verified chain) is denied with the reason
  \<open>request is not authenticated\<close> and no error, and nothing is sent to the policy service.
\<close>

theorem Authorize_denies_unauthenticated:
  assumes "Request req = Some h" and "\<not> isInfoEndpoint req"
    and "TLS h = None \<or>
         (\<exists>tls. TLS h = Some tls \<and> (PeerCertificates tls = [] \<or> VerifiedChains tls = []))"
  shows "Authorize a req = Inr ((False, ''request is not authenticated'', None), [])"
proof -
  from assms(1,3) have "isAuthenticated req = Inr False"
    by (auto simp: isAuthenticated_Some)
  with assms(2) show ?thesis
    by (rule Authorize_unauthenticated)
qed

theorem Authorize_denies_unauthenticated_witness:
  "\<not> isInfoEndpoint (mk_Request ''POST'' upload_path alice_headers None) \<and>
   Authorize allowing_authorizor (mk_Request ''POST'' upload_path alice_headers None) =
     Inr ((False, ''request is not authenticated'', None), [])"
  using Authorize_denies_unauthenticated [of
     "mk_Request ''POST'' upload_path alice_headers None"
     "\<lparr>Method = ''POST'', URL = Some \<lparr>Path = upload_path\<rparr>, Header = alice_headers,
       TLS = None\<rparr>" allowing_authorizor]
    upload_path_protected [of "''POST''" alice_headers None]
  by (simp add: mk_Request_def)

text \<open>
  C2 does not hold for the empty path: the classifier takes it for an information
  endpoint, and \<open>Authorize\<close> allows the request, here one without transport state and
  without headers.
\<close>

theorem isInfoEndpoint_empty_path_counterexample:
  "isInfoEndpoint
     \<lparr>Request = Some \<lparr>Method = ''POST'', URL = Some \<lparr>Path = []\<rparr>,
                      Header = ordered_headers [], TLS = None\<rparr>\<rparr> \<and>
   Authorize failing_authorizor
     \<lparr>Request = Some \<lparr>Method = ''POST'', URL = Some \<lparr>Path = []\<rparr>,
                      Header = ordered_headers [], TLS = None\<rparr>\<rparr> =
     Inr ((True, [], None), [])"
  by (simp add: Authorize_def isInfoEndpoint_def)

text \<open>
  C2, as the code has it: the classifier is total; a request whose URL path is empty is
  classified as an information endpoint (the empty path splits into one segment, and
  one is at most four), so \<open>Authorize\<close> allows it at once; the classifier answers
  protected when the request has no HTTP request or no URL.
\<close>

theorem isInfoEndpoint_empty_path:
  "(Request req = Some h \<and> URL h = Some u \<and> Path u = [] \<longrightarrow>
      isInfoEndpoint req \<and> Authorize a req = Inr ((True, [], None), [])) \<and>
   (Request req = None \<or> (\<exists>h. Request req = Some h \<and> URL h = None) \<longrightarrow>
      \<not> isInfoEndpoint req)"
proof (intro conjI impI)
  assume e: "Request req = Some h \<and> URL h = Some u \<and> Path u = []"
  then show i: "isInfoEndpoint req"
    by (simp add: isInfoEndpoint_Some)
  then show "Authorize a req = Inr ((True, [], None), [])"
    by (rule Authorize_info)
next
  assume "Request req = None \<or> (\<exists>h. Request req = Some h \<and> URL h = None)"
  then show "\<not> isInfoEndpoint req"
    by (rule isInfoEndpoint_no_URL)
qed

theorem isInfoEndpoint_empty_path_witness:
  "Path \<lparr>Path = []\<rparr> = [] \<and>
   isInfoEndpoint (mk_Request ''POST'' [] alice_headers verified_peer) \<and>
   Authorize allowing_authorizor (mk_Request ''POST'' [] alice_headers verified_peer) =
     Inr ((True, [], None), []) \<and>
   Request \<lparr>Request = None\<rparr> = None \<and> \<not> isInfoEndpoint \<lparr>Request = None\<rparr>"
  using isInfoEndpoint_empty_path [of
     "mk_Request ''POST'' [] alice_headers verified_peer"
     "\<lparr>Method = ''POST'', URL = Some \<lparr>Path = []\<rparr>, Header = alice_headers,
       TLS = verified_peer\<rparr>" "\<lparr>Path = []\<rparr>" allowing_authorizor]
    isInfoEndpoint_empty_path [of "\<lparr>Request = None\<rparr>"]
  by (simp add: mk_Request_def)

section \<open>Denials and errors\<close>

text \<open>
  C1: \<open>Authorize\<close> returns an error only when \<open>Create\<close> of the policy service fails
  (the review was built and sent, and the error is the one of the service); when the
  construction of the review fails, the request is denied with the text of that failure as
  the reason and no error; when the authentication fails, the request is denied with the
  fixed reason and no error. In both denials nothing is sent to the policy service.
\<close>

theorem Authorize_error_only_from_policy_service:
  "(Authorize a req = Inr ((allowed, reason, Some e), sent) \<longrightarrow>
      (\<exists>r. generateAccessReview a req = Inr r \<and> subjectAccessReview a r = Inl e \<and>
           sent = [r] \<and> \<not> allowed)) \<and>
   (\<not> isInfoEndpoint req \<and> isAuthenticated req = Inr True \<and>
      generateAccessReview a req = Inl err \<longrightarrow>
      Authorize a req = Inr ((False, err, None), [])) \<and>
   (\<not> isInfoEndpoint req \<and> isAuthenticated req = Inr False \<longrightarrow>
      Authorize a req = Inr ((False, ''request is not authenticated'', None), []))"
  using Authorize_error_cases [of a req allowed reason e sent]
    Authorize_malformed [of req a err] Authorize_unauthenticated [of req a]
  by blast

theorem Authorize_error_only_from_policy_service_witness:
  "(Authorize failing_authorizor (mk_Request ''POST'' upload_path alice_headers verified_peer) =
      Inr ((False, ''internal server error'', Some ''connection refused''), [alice_review]) \<and>
    generateAccessReview failing_authorizor
      (mk_Request ''POST'' upload_path alice_headers verified_peer) = Inr alice_review \<and>
    subjectAccessReview failing_authorizor alice_review = Inl ''connection refused'') \<and>
   (\<not> isInfoEndpoint (mk_Request ''GET'' upload_path alice_headers verified_peer) \<and>
    isAuthenticated (mk_Request ''GET'' upload_path alice_headers verified_peer) = Inr True \<and>
    generateAccessReview failing_authorizor
      (mk_Request ''GET'' upload_path alice_headers verified_peer) =
      Inl ''unsupported HTTP method GET'' \<and>
    Authorize failing_authorizor (mk_Request ''GET'' upload_path alice_headers verified_peer) =
      Inr ((False, ''unsupported HTTP method GET'', None), [])) \<and>
   (\<not> isInfoEndpoint (mk_Request ''POST'' upload_path alice_headers None) \<and>
    isAuthenticated (mk_Request ''POST'' upload_path alice_headers None) = Inr False \<and>
    Authorize failing_authorizor (mk_Request ''POST'' upload_path alice_headers None) =
      Inr ((False, ''request is not authenticated'', None), []))"
  using Authorize_error_only_from_policy_service [of failing_authorizor
      "mk_Request ''POST'' upload_path alice_headers verified_peer" False
      "''internal server error''" "''connection refused''" "[alice_review]"]
    Authorize_error_only_from_policy_service [of failing_authorizor
      "mk_Request ''GET'' upload_path alice_headers verified_peer" _ _ _ _
      "''unsupported HTTP method GET''"]
    Authorize_error_only_from_policy_service [of failing_authorizor
      "mk_Request ''POST'' upload_path alice_headers None"]
    Authorize_alice_policy_fails
    gar_alice [of failing_authorizor verified_peer]
    gar_alice_GET [of failing_authorizor verified_peer]
    upload_path_protected verified_peer_authenticated no_TLS_unauthenticated
  by (simp add: failing_authorizor_def policy_fails_def)

section \<open>Construction of the access review\<close>

lemma dom_verbMap: "dom verbMap = {''POST''}"
  by (auto simp: verbMap_def split: if_splits)

lemma verbMap_POST: "verbMap ''POST'' = Some ''create''"
  by (simp add: verbMap_def)

lemma verbMap_Some: "verbMap m = Some verb \<Longrightarrow> verb = ''create''"
  by (auto simp: verbMap_def split: if_splits)

lemma gar_Inr_iff:
  assumes "Request req = Some h" and "URL h = Some u"
  shows "(\<exists>r. generateAccessReview a req = Inr r) \<longleftrightarrow>
         length (pathSplit u) = 7 \<and> pathSplit u ! 2 = uploadTokenGroup \<and>
         pathSplit u ! 6 = ''uploadtokenrequests'' \<and>
         (\<exists>users. matchHeaders (Header h) (UserHeaders (authConfigWatcher a)) = Inr users \<and> users \<noteq> []) \<and>
         (\<exists>groups. matchHeaders (Header h) (GroupHeaders (authConfigWatcher a)) = Inr groups) \<and>
         ToUpper (Method h) \<in> dom verbMap"
proof (cases "length (pathSplit u) = 7 \<and> pathSplit u ! 2 = uploadTokenGroup \<and>
              pathSplit u ! 6 = ''uploadtokenrequests''")
  case True
  then show ?thesis
    using gar_identity [OF assms, of a]
    by (auto split: sum.splits option.splits if_splits)
next
  case False
  then consider "length (pathSplit u) \<noteq> 7"
    | "length (pathSplit u) = 7" "pathSplit u ! 2 \<noteq> uploadTokenGroup"
    | "length (pathSplit u) = 7" "pathSplit u ! 2 = uploadTokenGroup"
      "pathSplit u ! 6 \<noteq> ''uploadtokenrequests''"
    by blast
  then have "\<exists>e. generateAccessReview a req = Inl e"
  proof cases
    case 1
    then show ?thesis using gar_bad_length [OF assms] by blast
  next
    case 2
    then show ?thesis using gar_bad_group [OF assms] by blast
  next
    case 3
    then show ?thesis using gar_bad_resource [OF assms] by blast
  qed
  with False show ?thesis
    by auto
qed

lemma gar_attributes:
  assumes "Request req = Some h" and "URL h = Some u"
    and "generateAccessReview a req = Inr r"
  shows "ResourceAttributes (Spec r) =
           Some \<lparr>Namespace = pathSplit u ! 5, Verb = ''create'', Group = pathSplit u ! 2,
                 Version = pathSplit u ! 3, Resource = pathSplit u ! 6\<rparr>"
proof -
  from assms(3) have ok: "length (pathSplit u) = 7" "pathSplit u ! 2 = uploadTokenGroup"
    "pathSplit u ! 6 = ''uploadtokenrequests''"
    using gar_Inr_iff [OF assms(1,2), of a] by auto
  show ?thesis
    using assms(3) gar_identity [OF assms(1,2) ok, of a]
    by (auto split: sum.splits option.splits if_splits dest: verbMap_Some)
qed

lemma gar_bad_method:
  assumes "Request req = Some h" and "URL h = Some u"
    and "length (pathSplit u) = 7" and "pathSplit u ! 2 = uploadTokenGroup"
    and "pathSplit u ! 6 = ''uploadtokenrequests''"
    and "matchHeaders (Header h) (UserHeaders (authConfigWatcher a)) = Inr users" and "users \<noteq> []"
    and "matchHeaders (Header h) (GroupHeaders (authConfigWatcher a)) = Inr groups"
    and "ToUpper (Method h) \<notin> dom verbMap"
  shows "generateAccessReview a req = Inl (''unsupported HTTP method '' @ ToUpper (Method h))"
  using gar_identity [OF assms(1-5), of a] assms(6-9)
  by (auto split: option.splits)

lemma gar_no_groups:
  assumes "Request req = Some h" and "URL h = Some u"
    and "length (pathSplit u) = 7" and "pathSplit u ! 2 = uploadTokenGroup"
    and "pathSplit u ! 6 = ''uploadtokenrequests''"
    and "matchHeaders (Header h) (UserHeaders (authConfigWatcher a)) = Inr users" and "users \<noteq> []"
    and "\<forall>g\<in>set (GroupHeaders (authConfigWatcher a)). map_of (entries (Header h)) g = None"
  shows "generateAccessReview a req =
           Inl (''one of these headers required for authorization: '' @
                format_strings (GroupHeaders (authConfigWatcher a)))"
  using gar_identity [OF assms(1-5), of a] assms(6,7) matchHeaders_none [OF assms(8)]
  by simp

lemma Authorize_sends_nothing:
  "generateAccessReview a req = Inl e \<Longrightarrow> Authorize a req = Inr (d, sent) \<Longrightarrow> sent = []"
  by (auto simp: Authorize_def split: if_splits sum.splits bool.splits)

text \<open>
  C7: for a request with a URL and an ASCII method (as every method that \<open>net/http\<close>
  accepts is), \<open>generateAccessReview\<close> succeeds exactly when the path splits into seven
  segments, the third is the served group, the seventh is \<open>uploadtokenrequests\<close>, the
  upper-cased method is in the verb table (whose only entry maps \<open>POST\<close> to \<open>create\<close>),
  and the identity extraction of the code succeeds: a configured user header is there with
  at least one value, and a configured group header is there. The resource attributes of
  the review are the sixth segment as namespace, \<open>create\<close>, and the third, fourth and
  seventh segments as group, version and resource. Each failure has its own error text, and
  \<open>Authorize\<close> sends nothing to the policy service when the construction fails.
\<close>

theorem generateAccessReview_succeeds_iff:
  assumes r: "Request req = Some h" and u: "URL h = Some u" and "ascii (Method h)"
  shows
    "((\<exists>r. generateAccessReview a req = Inr r) \<longleftrightarrow>
        length (pathSplit u) = 7 \<and> pathSplit u ! 2 = uploadTokenGroup \<and>
        pathSplit u ! 6 = ''uploadtokenrequests'' \<and>
        (\<exists>users. matchHeaders (Header h) (UserHeaders (authConfigWatcher a)) = Inr users \<and> users \<noteq> []) \<and>
        (\<exists>groups. matchHeaders (Header h) (GroupHeaders (authConfigWatcher a)) = Inr groups) \<and>
        ToUpper (Method h) \<in> dom verbMap) \<and>
     dom verbMap = {''POST''} \<and> verbMap ''POST'' = Some ''create'' \<and>
     (\<forall>r. generateAccessReview a req = Inr r \<longrightarrow>
        ResourceAttributes (Spec r) =
          Some \<lparr>Namespace = pathSplit u ! 5, Verb = ''create'', Group = pathSplit u ! 2,
                Version = pathSplit u ! 3, Resource = pathSplit u ! 6\<rparr>) \<and>
     (length (pathSplit u) \<noteq> 7 \<longrightarrow>
        generateAccessReview a req = Inl (''unknown api endpoint '' @ Path u)) \<and>
     (length (pathSplit u) = 7 \<and> pathSplit u ! 2 \<noteq> uploadTokenGroup \<longrightarrow>
        generateAccessReview a req = Inl (''unknown api group '' @ pathSplit u ! 2)) \<and>
     (length (pathSplit u) = 7 \<and> pathSplit u ! 2 = uploadTokenGroup \<and>
      pathSplit u ! 6 \<noteq> ''uploadtokenrequests'' \<longrightarrow>
        generateAccessReview a req = Inl (''unknown resource type '' @ pathSplit u ! 6)) \<and>
     (length (pathSplit u) = 7 \<and> pathSplit u ! 2 = uploadTokenGroup \<and>
      pathSplit u ! 6 = ''uploadtokenrequests'' \<and>
      (\<exists>users. matchHeaders (Header h) (UserHeaders (authConfigWatcher a)) = Inr users \<and> users \<noteq> []) \<and>
      (\<exists>groups. matchHeaders (Header h) (GroupHeaders (authConfigWatcher a)) = Inr groups) \<and>
      ToUpper (Method h) \<notin> dom verbMap \<longrightarrow>
        generateAccessReview a req =
          Inl (''unsupported HTTP method '' @ ToUpper (Method h))) \<and>
     (\<forall>e d sent. generateAccessReview a req = Inl e \<and> Authorize a req = Inr (d, sent) \<longrightarrow>
        sent = [])"
  using gar_Inr_iff [OF r u, of a] gar_attributes [OF r u, of a]
    gar_bad_length [OF r u, of a] gar_bad_group [OF r u, of a]
    gar_bad_resource [OF r u, of a] gar_bad_method [OF r u, of a]
    Authorize_sends_nothing [of a req] dom_verbMap verbMap_POST
  by (intro conjI allI impI) blast+

theorem generateAccessReview_succeeds_iff_witness:
  "Request (mk_Request ''POST'' upload_path alice_headers verified_peer) =
     Some \<lparr>Method = ''POST'', URL = Some \<lparr>Path = upload_path\<rparr>, Header = alice_headers,
           TLS = verified_peer\<rparr> \<and>
   ascii ''POST'' \<and>
   generateAccessReview allowing_authorizor
     (mk_Request ''POST'' upload_path alice_headers verified_peer) = Inr alice_review \<and>
   ResourceAttributes (Spec alice_review) =
     Some \<lparr>Namespace = pathSplit \<lparr>Path = upload_path\<rparr> ! 5, Verb = ''create'',
           Group = pathSplit \<lparr>Path = upload_path\<rparr> ! 2,
           Version = pathSplit \<lparr>Path = upload_path\<rparr> ! 3,
           Resource = pathSplit \<lparr>Path = upload_path\<rparr> ! 6\<rparr> \<and>
   length (pathSplit \<lparr>Path = ''/apis/upload.cdi.kubevirt.io''\<rparr>) \<noteq> 7 \<and>
   generateAccessReview allowing_authorizor
     (mk_Request ''POST'' ''/apis/upload.cdi.kubevirt.io'' alice_headers verified_peer) =
     Inl ''unknown api endpoint /apis/upload.cdi.kubevirt.io''"
proof -
  have m: "ascii ''POST''"
    by (simp add: ascii_def)
  have ok: "generateAccessReview allowing_authorizor
     (mk_Request ''POST'' upload_path alice_headers verified_peer) = Inr alice_review"
    by (rule gar_alice) (simp add: allowing_authorizor_def)
  have "ResourceAttributes (Spec alice_review) =
     Some \<lparr>Namespace = pathSplit \<lparr>Path = upload_path\<rparr> ! 5, Verb = ''create'',
           Group = pathSplit \<lparr>Path = upload_path\<rparr> ! 2,
           Version = pathSplit \<lparr>Path = upload_path\<rparr> ! 3,
           Resource = pathSplit \<lparr>Path = upload_path\<rparr> ! 6\<rparr>"
    using ok generateAccessReview_succeeds_iff [of
        "mk_Request ''POST'' upload_path alice_headers verified_peer"
        "\<lparr>Method = ''POST'', URL = Some \<lparr>Path = upload_path\<rparr>, Header = alice_headers,
          TLS = verified_peer\<rparr>" "\<lparr>Path = upload_path\<rparr>" allowing_authorizor]
    by (simp add: mk_Request_def m)
  moreover have "length (pathSplit \<lparr>Path = ''/apis/upload.cdi.kubevirt.io''\<rparr>) \<noteq> 7"
    by simp
  moreover have "generateAccessReview allowing_authorizor
     (mk_Request ''POST'' ''/apis/upload.cdi.kubevirt.io'' alice_headers verified_peer) =
     Inl ''unknown api endpoint /apis/upload.cdi.kubevirt.io''"
    using generateAccessReview_succeeds_iff [of
        "mk_Request ''POST'' ''/apis/upload.cdi.kubevirt.io'' alice_headers verified_peer"
        "\<lparr>Method = ''POST'', URL = Some \<lparr>Path = ''/apis/upload.cdi.kubevirt.io''\<rparr>,
          Header = alice_headers, TLS = verified_peer\<rparr>"
        "\<lparr>Path = ''/apis/upload.cdi.kubevirt.io''\<rparr>" allowing_authorizor]
    by (simp add: mk_Request_def m)
  ultimately show ?thesis
    using ok m by (simp add: mk_Request_def)
qed

lemma Split_seven:
  assumes "CHR ''/'' \<notin> set s0" "CHR ''/'' \<notin> set s1" "CHR ''/'' \<notin> set s2" "CHR ''/'' \<notin> set s3"
    "CHR ''/'' \<notin> set s4" "CHR ''/'' \<notin> set s5" "CHR ''/'' \<notin> set s6"
  shows "Split (s0 @ ''/'' @ s1 @ ''/'' @ s2 @ ''/'' @ s3 @ ''/'' @ s4 @ ''/'' @ s5 @ ''/'' @ s6)
           CHR ''/'' = [s0, s1, s2, s3, s4, s5, s6]"
  using assms by (simp add: Split_append_sep Split_no_sep)

lemma gar_same_segments:
  assumes "Request req = Some h" and "URL h = Some u"
    and "Request req' = Some h'" and "URL h' = Some u'"
    and "Method h' = Method h" and "Header h' = Header h"
    and l: "length (pathSplit u) = 7" and l': "length (pathSplit u') = 7"
    and s2: "pathSplit u' ! 2 = pathSplit u ! 2" and s3: "pathSplit u' ! 3 = pathSplit u ! 3"
    and s5: "pathSplit u' ! 5 = pathSplit u ! 5" and s6: "pathSplit u' ! 6 = pathSplit u ! 6"
  shows "generateAccessReview a req' = generateAccessReview a req"
proof -
  consider "pathSplit u ! 2 \<noteq> uploadTokenGroup"
    | "pathSplit u ! 2 = uploadTokenGroup" "pathSplit u ! 6 \<noteq> ''uploadtokenrequests''"
    | "pathSplit u ! 2 = uploadTokenGroup" "pathSplit u ! 6 = ''uploadtokenrequests''"
    by blast
  then show ?thesis
  proof cases
    case 1
    then show ?thesis
      using gar_bad_group [OF assms(1,2) l, of a] gar_bad_group [OF assms(3,4) l', of a] s2
      by simp
  next
    case 2
    then show ?thesis
      using gar_bad_resource [OF assms(1,2) l, of a] gar_bad_resource [OF assms(3,4) l', of a]
        s2 s6
      by simp
  next
    case 3
    with s2 s6 have e: "pathSplit u' ! 2 = uploadTokenGroup"
      "pathSplit u' ! 6 = ''uploadtokenrequests''"
      by simp_all
    show ?thesis
      unfolding gar_identity [OF assms(1,2) l 3, of a] gar_identity [OF assms(3,4) l' e, of a]
        assms(5,6) s2 s3 s5 s6
      by (rule refl)
  qed
qed

lemma uploadTokenGroup_no_slash: "CHR ''/'' \<notin> set uploadTokenGroup"
  by (simp add: uploadTokenGroup_def)

lemma gar_any_prefix:
  assumes "Request req = Some h" and "URL h = Some u"
    and "CHR ''/'' \<notin> set x0 \<union> set x1 \<union> set v \<union> set y \<union> set ns"
    and p: "Path u = x0 @ ''/'' @ x1 @ ''/'' @ uploadTokenGroup @ ''/'' @ v @ ''/'' @ y @ ''/'' @
                  ns @ ''/'' @ ''uploadtokenrequests''"
    and "matchHeaders (Header h) (UserHeaders (authConfigWatcher a)) = Inr users" and "users \<noteq> []"
    and "matchHeaders (Header h) (GroupHeaders (authConfigWatcher a)) = Inr groups"
    and "ToUpper (Method h) = ''POST''"
  shows "\<exists>r. generateAccessReview a req = Inr r \<and>
             ResourceAttributes (Spec r) =
               Some \<lparr>Namespace = ns, Verb = ''create'', Group = uploadTokenGroup, Version = v,
                     Resource = ''uploadtokenrequests''\<rparr>"
proof -
  have "pathSplit u = [x0, x1, uploadTokenGroup, v, y, ns, ''uploadtokenrequests'']"
    unfolding p using assms(3) uploadTokenGroup_no_slash
    by (intro Split_seven) simp_all
  then show ?thesis
    using gar_identity [OF assms(1,2), of a] assms(5-8)
    by (simp add: verbMap_POST)
qed

text \<open>
  C9: \<open>generateAccessReview\<close> does not look at the first, second and fifth segment of the
  path: two requests with the same method and headers whose paths have seven segments and
  agree on the third, fourth, sixth and seventh get the same result; and a path
  \<open>x0/x1/<served group>/v/y/ns/uploadtokenrequests\<close> with any \<open>x0\<close> (empty when the path
  starts with a slash, anything else when it does not), \<open>x1\<close> and \<open>y\<close> is accepted when
  the identity headers and the method are fine, with namespace \<open>ns\<close>.
\<close>

theorem generateAccessReview_ignores_segments:
  assumes "Request req = Some h" and "URL h = Some u"
  shows
    "(Request req' = Some h' \<and> URL h' = Some u' \<and> Method h' = Method h \<and>
      Header h' = Header h \<and> length (pathSplit u) = 7 \<and> length (pathSplit u') = 7 \<and>
      pathSplit u' ! 2 = pathSplit u ! 2 \<and> pathSplit u' ! 3 = pathSplit u ! 3 \<and>
      pathSplit u' ! 5 = pathSplit u ! 5 \<and> pathSplit u' ! 6 = pathSplit u ! 6 \<longrightarrow>
        generateAccessReview a req' = generateAccessReview a req) \<and>
     (CHR ''/'' \<notin> set x0 \<union> set x1 \<union> set v \<union> set y \<union> set ns \<and>
      Path u = x0 @ ''/'' @ x1 @ ''/'' @ uploadTokenGroup @ ''/'' @ v @ ''/'' @ y @ ''/'' @
                 ns @ ''/'' @ ''uploadtokenrequests'' \<and>
      matchHeaders (Header h) (UserHeaders (authConfigWatcher a)) = Inr users \<and> users \<noteq> [] \<and>
      matchHeaders (Header h) (GroupHeaders (authConfigWatcher a)) = Inr groups \<and>
      ToUpper (Method h) = ''POST'' \<longrightarrow>
        (\<exists>r. generateAccessReview a req = Inr r \<and>
             ResourceAttributes (Spec r) =
               Some \<lparr>Namespace = ns, Verb = ''create'', Group = uploadTokenGroup, Version = v,
                     Resource = ''uploadtokenrequests''\<rparr>))"
  using gar_same_segments [OF assms, of req' h' u' a]
    gar_any_prefix [OF assms, of x0 x1 v y ns a users groups]
  by blast

theorem generateAccessReview_ignores_segments_witness:
  "length (pathSplit \<lparr>Path = ''x/y/upload.cdi.kubevirt.io/v1beta1/z/default/uploadtokenrequests''\<rparr>)
     = 7 \<and>
   generateAccessReview allowing_authorizor
     (mk_Request ''POST'' ''x/y/upload.cdi.kubevirt.io/v1beta1/z/default/uploadtokenrequests''
        alice_headers verified_peer) = Inr alice_review \<and>
   (\<exists>r. generateAccessReview allowing_authorizor
          (mk_Request ''post'' ''/x/upload.cdi.kubevirt.io/v1/y/ns/uploadtokenrequests''
             alice_headers verified_peer) = Inr r \<and>
        ResourceAttributes (Spec r) =
          Some \<lparr>Namespace = ''ns'', Verb = ''create'', Group = uploadTokenGroup,
                Version = ''v1'', Resource = ''uploadtokenrequests''\<rparr>)"
proof -
  have ok: "generateAccessReview allowing_authorizor
     (mk_Request ''POST'' upload_path alice_headers verified_peer) = Inr alice_review"
    by (rule gar_alice) (simp add: allowing_authorizor_def)
  have 1: "generateAccessReview allowing_authorizor
     (mk_Request ''POST'' ''x/y/upload.cdi.kubevirt.io/v1beta1/z/default/uploadtokenrequests''
        alice_headers verified_peer) = Inr alice_review"
    using ok generateAccessReview_ignores_segments [of
        "mk_Request ''POST'' upload_path alice_headers verified_peer"
        "\<lparr>Method = ''POST'', URL = Some \<lparr>Path = upload_path\<rparr>, Header = alice_headers,
          TLS = verified_peer\<rparr>" "\<lparr>Path = upload_path\<rparr>"
        "mk_Request ''POST'' ''x/y/upload.cdi.kubevirt.io/v1beta1/z/default/uploadtokenrequests''
           alice_headers verified_peer"
        "\<lparr>Method = ''POST'',
          URL = Some \<lparr>Path = ''x/y/upload.cdi.kubevirt.io/v1beta1/z/default/uploadtokenrequests''\<rparr>,
          Header = alice_headers, TLS = verified_peer\<rparr>"
        "\<lparr>Path = ''x/y/upload.cdi.kubevirt.io/v1beta1/z/default/uploadtokenrequests''\<rparr>"
        allowing_authorizor]
    by (simp add: mk_Request_def split_upload_path)
  have 2: "\<exists>r. generateAccessReview allowing_authorizor
          (mk_Request ''post'' ''/x/upload.cdi.kubevirt.io/v1/y/ns/uploadtokenrequests''
             alice_headers verified_peer) = Inr r \<and>
        ResourceAttributes (Spec r) =
          Some \<lparr>Namespace = ''ns'', Verb = ''create'', Group = uploadTokenGroup,
                Version = ''v1'', Resource = ''uploadtokenrequests''\<rparr>"
    using generateAccessReview_ignores_segments [of
        "mk_Request ''post'' ''/x/upload.cdi.kubevirt.io/v1/y/ns/uploadtokenrequests''
           alice_headers verified_peer"
        "\<lparr>Method = ''post'',
          URL = Some \<lparr>Path = ''/x/upload.cdi.kubevirt.io/v1/y/ns/uploadtokenrequests''\<rparr>,
          Header = alice_headers, TLS = verified_peer\<rparr>"
        "\<lparr>Path = ''/x/upload.cdi.kubevirt.io/v1/y/ns/uploadtokenrequests''\<rparr>"
        _ _ _ allowing_authorizor "[]" "''x''" "''v1''" "''y''" "''ns''"
        "[''alice'']" "[''g1'', ''g2'']"]
      match_alice
    by (simp add: mk_Request_def uploadTokenGroup_def allowing_authorizor_def
        default_AuthConfig_def ToUpper_examples)
  show ?thesis
    using 1 2 by simp
qed

section \<open>Missing group headers\<close>

lemma gar_needs_groups:
  assumes "Request req = Some h" and "URL h = Some u"
    and "\<forall>g\<in>set (GroupHeaders (authConfigWatcher a)). map_of (entries (Header h)) g = None"
  shows "\<exists>e. generateAccessReview a req = Inl e"
proof (cases "generateAccessReview a req")
  case (Inl e)
  then show ?thesis by blast
next
  case (Inr r)
  then obtain groups where
    "matchHeaders (Header h) (GroupHeaders (authConfigWatcher a)) = Inr groups"
    using gar_Inr_iff [OF assms(1,2), of a] by blast
  then obtain g where "g \<in> set (GroupHeaders (authConfigWatcher a))"
    "map_of (entries (Header h)) g = Some groups"
    by (blast dest: matchHeaders_Inr)
  with assms(3) show ?thesis by simp
qed

text \<open>
  C3 does not hold: a request with the user header \<open>X-Remote-User\<close> and no group header,
  to the upload path with \<open>POST\<close> and a verified peer, gets no access review; it is denied
  with the error of \<open>matchHeaders\<close> for the group headers.
\<close>

theorem missing_group_headers_counterexample:
  "map_of (entries (ordered_headers [(''X-Remote-User'', [''bob''])])) ''X-Remote-User'' =
     Some [''bob''] \<and>
   map_of (entries (ordered_headers [(''X-Remote-User'', [''bob''])])) ''X-Remote-Group'' =
     None \<and>
   generateAccessReview allowing_authorizor
     (mk_Request ''POST'' upload_path (ordered_headers [(''X-Remote-User'', [''bob''])])
        verified_peer) =
     Inl ''one of these headers required for authorization: [X-Remote-Group]'' \<and>
   Authorize allowing_authorizor
     (mk_Request ''POST'' upload_path (ordered_headers [(''X-Remote-User'', [''bob''])])
        verified_peer) =
     Inr ((False, ''one of these headers required for authorization: [X-Remote-Group]'', None),
          [])"
proof -
  have g: "generateAccessReview allowing_authorizor
     (mk_Request ''POST'' upload_path (ordered_headers [(''X-Remote-User'', [''bob''])])
        verified_peer) =
     Inl ''one of these headers required for authorization: [X-Remote-Group]''"
    by (simp add: generateAccessReview_def mk_Request_def split_upload_path
        allowing_authorizor_def default_AuthConfig_def uploadTokenGroup_def Let_def
        matchHeaders_def format_strings_def header_eval)
  then show ?thesis
    by (simp add: Authorize_malformed upload_path_protected verified_peer_authenticated
        header_eval)
qed

text \<open>
  C3, as the code has it: when none of the configured group headers is in the request,
  the construction of the access review fails, also when a configured user header with a
  value is there, and an authenticated request to a protected endpoint is denied with the
  text of that failure as the reason, no error, and nothing sent to the policy service.
  When the path has seven segments with the served group and resource and a configured
  user header with a value is there, the failure is the error of \<open>matchHeaders\<close> that
  names the configured group headers, and that text is the reason of the denial.
\<close>

theorem missing_group_headers_is_error:
  assumes r: "Request req = Some h" and u: "URL h = Some u"
    and g: "\<forall>g\<in>set (GroupHeaders (authConfigWatcher a)). map_of (entries (Header h)) g = None"
  shows
    "(\<exists>e. generateAccessReview a req = Inl e \<and>
          (\<not> isInfoEndpoint req \<and> isAuthenticated req = Inr True \<longrightarrow>
             Authorize a req = Inr ((False, e, None), []))) \<and>
     (length (pathSplit u) = 7 \<and> pathSplit u ! 2 = uploadTokenGroup \<and>
      pathSplit u ! 6 = ''uploadtokenrequests'' \<and>
      matchHeaders (Header h) (UserHeaders (authConfigWatcher a)) = Inr users \<and>
      users \<noteq> [] \<longrightarrow>
        generateAccessReview a req =
          Inl (''one of these headers required for authorization: '' @
               format_strings (GroupHeaders (authConfigWatcher a))) \<and>
        (\<not> isInfoEndpoint req \<and> isAuthenticated req = Inr True \<longrightarrow>
           Authorize a req =
             Inr ((False,
                   ''one of these headers required for authorization: '' @
                   format_strings (GroupHeaders (authConfigWatcher a)),
                   None), [])))"
proof (intro conjI impI)
  from gar_needs_groups [OF r u g] obtain e where e: "generateAccessReview a req = Inl e"
    by blast
  then have "\<not> isInfoEndpoint req \<and> isAuthenticated req = Inr True \<longrightarrow>
             Authorize a req = Inr ((False, e, None), [])"
    by (simp add: Authorize_malformed)
  with e show "\<exists>e. generateAccessReview a req = Inl e \<and>
          (\<not> isInfoEndpoint req \<and> isAuthenticated req = Inr True \<longrightarrow>
             Authorize a req = Inr ((False, e, None), []))"
    by blast
next
  assume p: "length (pathSplit u) = 7 \<and> pathSplit u ! 2 = uploadTokenGroup \<and>
      pathSplit u ! 6 = ''uploadtokenrequests'' \<and>
      matchHeaders (Header h) (UserHeaders (authConfigWatcher a)) = Inr users \<and>
      users \<noteq> []"
  then show t: "generateAccessReview a req =
          Inl (''one of these headers required for authorization: '' @
               format_strings (GroupHeaders (authConfigWatcher a)))"
    using gar_no_groups [OF r u _ _ _ _ _ g, of users] by blast
  assume "\<not> isInfoEndpoint req \<and> isAuthenticated req = Inr True"
  with t show "Authorize a req =
             Inr ((False,
                   ''one of these headers required for authorization: '' @
                   format_strings (GroupHeaders (authConfigWatcher a)),
                   None), [])"
    by (simp add: Authorize_malformed)
qed

theorem missing_group_headers_is_error_witness:
  "GroupHeaders (authConfigWatcher allowing_authorizor) = [''X-Remote-Group''] \<and>
   map_of (entries (ordered_headers [(''X-Remote-User'', [''bob''])])) ''X-Remote-Group'' =
     None \<and>
   matchHeaders (ordered_headers [(''X-Remote-User'', [''bob''])])
     (UserHeaders (authConfigWatcher allowing_authorizor)) = Inr [''bob''] \<and>
   \<not> isInfoEndpoint
       (mk_Request ''POST'' upload_path (ordered_headers [(''X-Remote-User'', [''bob''])])
          verified_peer) \<and>
   isAuthenticated
     (mk_Request ''POST'' upload_path (ordered_headers [(''X-Remote-User'', [''bob''])])
        verified_peer) = Inr True \<and>
   generateAccessReview allowing_authorizor
     (mk_Request ''POST'' upload_path (ordered_headers [(''X-Remote-User'', [''bob''])])
        verified_peer) =
     Inl (''one of these headers required for authorization: '' @
          format_strings (GroupHeaders (authConfigWatcher allowing_authorizor))) \<and>
   Authorize allowing_authorizor
     (mk_Request ''POST'' upload_path (ordered_headers [(''X-Remote-User'', [''bob''])])
        verified_peer) =
     Inr ((False,
           ''one of these headers required for authorization: '' @
           format_strings (GroupHeaders (authConfigWatcher allowing_authorizor)),
           None), [])"
  using missing_group_headers_is_error [of
      "mk_Request ''POST'' upload_path (ordered_headers [(''X-Remote-User'', [''bob''])])
         verified_peer"
      "\<lparr>Method = ''POST'', URL = Some \<lparr>Path = upload_path\<rparr>,
        Header = ordered_headers [(''X-Remote-User'', [''bob''])], TLS = verified_peer\<rparr>"
      "\<lparr>Path = upload_path\<rparr>" allowing_authorizor "[''bob'']",
      THEN conjunct2]
    upload_path_protected [of "''POST''" "ordered_headers [(''X-Remote-User'', [''bob''])]"
      verified_peer]
    verified_peer_authenticated [of "''POST''" upload_path
      "ordered_headers [(''X-Remote-User'', [''bob''])]"]
  by (simp add: mk_Request_def split_upload_path allowing_authorizor_def default_AuthConfig_def
      uploadTokenGroup_def matchHeaders_def header_eval)

section \<open>Matching of header names\<close>











section \<open>Extra attributes\<close>

lemma wf_Header_visits:
  "wf_Header h \<Longrightarrow> set (visits h i) = set (entries h)"
  "wf_Header h \<Longrightarrow> distinct (map fst (visits h i))"
  by (simp_all add: wf_Header_def)

lemma extras_range_all_writers:
  assumes "\<forall>(k, w)\<in>set hs. hasPrefixIgnoreCase k p \<and> extraKey p k = x \<longrightarrow> w = v"
  shows "extras_range p hs m x =
           (if \<exists>(k, w)\<in>set hs. hasPrefixIgnoreCase k p \<and> extraKey p k = x then Some v
            else m x)"
  using assms by (induction hs arbitrary: m) (auto split: if_splits)

lemma extras_range_no_writer:
  assumes "\<forall>(k, w)\<in>set hs. \<not> (hasPrefixIgnoreCase k p \<and> extraKey p k = x)"
  shows "extras_range p hs m x = m x"
  using assms by (induction hs arbitrary: m) (auto split: if_splits)

lemma extras_range_origin:
  "extras_range p hs m x = Some w \<Longrightarrow>
   m x = Some w \<or> (\<exists>(k, w')\<in>set hs. hasPrefixIgnoreCase k p \<and> extraKey p k = x \<and> w' = w)"
proof (induction hs arbitrary: m)
  case Nil
  then show ?case by simp
next
  case (Cons kv hs)
  obtain k v where kv: "kv = (k, v)" by (cases kv)
  from Cons.IH [OF Cons.prems [unfolded kv extras_range.simps]] show ?case
    unfolding kv by (auto split: if_splits)
qed

lemma extras_range_keeps:
  "m x \<noteq> None \<Longrightarrow> extras_range p hs m x \<noteq> None"
proof (induction hs arbitrary: m)
  case Nil
  then show ?case by simp
next
  case (Cons kv hs)
  obtain k v where kv: "kv = (k, v)" by (cases kv)
  have "(if hasPrefixIgnoreCase k p then m(extraKey p k \<mapsto> v) else m) x \<noteq> None"
    using Cons.prems by simp
  with Cons.IH [of "if hasPrefixIgnoreCase k p then m(extraKey p k \<mapsto> v) else m"]
  show ?case
    unfolding kv by simp
qed

lemma extras_range_written:
  "(k, v) \<in> set hs \<Longrightarrow> hasPrefixIgnoreCase k p \<Longrightarrow> extras_range p hs m (extraKey p k) \<noteq> None"
proof (induction hs arbitrary: m)
  case Nil
  then show ?case by simp
next
  case (Cons kv hs)
  show ?case
  proof (cases "kv = (k, v)")
    case True
    then show ?thesis
      using Cons.prems(2) by (simp add: extras_range_keeps)
  next
    case False
    with Cons.prems have "(k, v) \<in> set hs" by simp
    from Cons.IH [OF this Cons.prems(2)] show ?thesis
      by (cases kv) simp
  qed
qed

lemma extras_range_append:
  "extras_range p (hb @ ha) m = extras_range p ha (extras_range p hb m)"
  by (induction hb arbitrary: m) auto

lemma extras_prefixes_all_writers:
  assumes "wf_Header h"
    and "\<forall>p\<in>set ps. \<forall>(k, w)\<in>set (entries h).
           hasPrefixIgnoreCase k p \<and> extraKey p k = x \<longrightarrow> w = v"
  shows "extras_prefixes ps h i m x =
           (if \<exists>p\<in>set ps. \<exists>(k, w)\<in>set (entries h).
                 hasPrefixIgnoreCase k p \<and> extraKey p k = x
            then Some v else m x)"
  using assms(2)
proof (induction ps arbitrary: i m)
  case Nil
  then show ?case by simp
next
  case (Cons p ps)
  have "\<forall>(k, w)\<in>set (visits h i). hasPrefixIgnoreCase k p \<and> extraKey p k = x \<longrightarrow> w = v"
    using Cons.prems by (simp add: wf_Header_visits [OF assms(1)])
  from extras_range_all_writers [OF this, of m]
  have r: "extras_range p (visits h i) m x =
           (if \<exists>(k, w)\<in>set (entries h). hasPrefixIgnoreCase k p \<and> extraKey p k = x
            then Some v else m x)"
    by (simp add: wf_Header_visits [OF assms(1)])
  have "extras_prefixes ps h (Suc i) (extras_range p (visits h i) m) x =
          (if \<exists>p\<in>set ps. \<exists>(k, w)\<in>set (entries h).
                hasPrefixIgnoreCase k p \<and> extraKey p k = x
           then Some v else extras_range p (visits h i) m x)"
    using Cons.prems by (intro Cons.IH) simp
  with r show ?case by auto
qed

lemma extras_prefixes_no_writer:
  assumes "wf_Header h"
    and "\<forall>p\<in>set ps. \<forall>(k, w)\<in>set (entries h).
           \<not> (hasPrefixIgnoreCase k p \<and> extraKey p k = x)"
  shows "extras_prefixes ps h i m x = m x"
proof -
  have "\<forall>p\<in>set ps. \<forall>(k, w)\<in>set (entries h).
           hasPrefixIgnoreCase k p \<and> extraKey p k = x \<longrightarrow> w = []"
    using assms(2) by blast
  from extras_prefixes_all_writers [OF assms(1) this, of i m] assms(2)
  show ?thesis by auto
qed

lemma extras_prefixes_origin:
  assumes "wf_Header h"
  shows "extras_prefixes ps h i m x = Some w \<Longrightarrow>
   m x = Some w \<or>
   (\<exists>p\<in>set ps. \<exists>(k, w')\<in>set (entries h).
      hasPrefixIgnoreCase k p \<and> extraKey p k = x \<and> w' = w)"
proof (induction ps arbitrary: i m)
  case Nil
  then show ?case by simp
next
  case (Cons p ps)
  from Cons.IH [OF Cons.prems [unfolded extras_prefixes.simps]]
  show ?case
    using extras_range_origin [of p "visits h i" m x w]
    by (auto simp: wf_Header_visits [OF assms])
qed

lemma extras_prefixes_keeps:
  "m x \<noteq> None \<Longrightarrow> extras_prefixes ps h i m x \<noteq> None"
proof (induction ps arbitrary: i m)
  case Nil
  then show ?case by simp
next
  case (Cons p ps)
  have "extras_range p (visits h i) m x \<noteq> None"
    using Cons.prems by (rule extras_range_keeps)
  with Cons.IH [of "extras_range p (visits h i) m" "Suc i"] show ?case by simp
qed

lemma extras_prefixes_written:
  assumes "wf_Header h"
  shows "p \<in> set ps \<Longrightarrow> (k, v) \<in> set (entries h) \<Longrightarrow> hasPrefixIgnoreCase k p \<Longrightarrow>
   extras_prefixes ps h i m (extraKey p k) \<noteq> None"
proof (induction ps arbitrary: i m)
  case Nil
  then show ?case by simp
next
  case (Cons q ps)
  show ?case
  proof (cases "q = p")
    case True
    have "(k, v) \<in> set (visits h i)"
      using Cons.prems(2) by (simp add: wf_Header_visits [OF assms])
    then have "extras_range p (visits h i) m (extraKey p k) \<noteq> None"
      using Cons.prems(3) by (rule extras_range_written)
    then show ?thesis
      using True by (simp add: extras_prefixes_keeps)
  next
    case False
    with Cons.prems have "p \<in> set ps" by simp
    from Cons.IH [OF this Cons.prems(2,3)] show ?thesis by simp
  qed
qed

lemma extras_prefixes_append:
  "extras_prefixes (pb @ pa) h i m =
     extras_prefixes pa h (i + length pb) (extras_prefixes pb h i m)"
  by (induction pb arbitrary: i m) auto

lemma extras_last_write:
  assumes "wf_Header h" and "ps = pb @ p # pa"
    and "visits h (i + length pb) = hb @ (k, v) # ha" and "hasPrefixIgnoreCase k p"
    and "\<forall>(k', w)\<in>set ha. \<not> (hasPrefixIgnoreCase k' p \<and> extraKey p k' = extraKey p k)"
    and "\<forall>p'\<in>set pa. \<forall>(k', w)\<in>set (entries h).
           \<not> (hasPrefixIgnoreCase k' p' \<and> extraKey p' k' = extraKey p k)"
  shows "extras_prefixes ps h i m (extraKey p k) = Some v"
proof -
  have "extras_range p (visits h (i + length pb)) m' (extraKey p k) = Some v" for m'
    unfolding assms(3) extras_range_append
    using assms(4,5) by (simp add: extras_range_no_writer)
  then show ?thesis
    unfolding assms(2) extras_prefixes_append
    using assms(6) by (simp add: extras_prefixes_no_writer [OF assms(1)])
qed

lemma getUserExtras_present:
  assumes "wf_Header hs" and "p \<in> set ps" and "(k, v) \<in> set (entries hs)"
    and "hasPrefixIgnoreCase k p"
  shows "\<exists>w. getUserExtras hs ps (extraKey p k) = Some w \<and>
             (\<exists>p'\<in>set ps. \<exists>(k', w')\<in>set (entries hs).
                hasPrefixIgnoreCase k' p' \<and> extraKey p' k' = extraKey p k \<and> w' = w)"
proof -
  from extras_prefixes_written [OF assms, of 0 Map.empty]
  obtain w where w: "getUserExtras hs ps (extraKey p k) = Some w"
    by (auto simp: getUserExtras_def)
  then have "\<exists>p'\<in>set ps. \<exists>(k', w')\<in>set (entries hs).
                hasPrefixIgnoreCase k' p' \<and> extraKey p' k' = extraKey p k \<and> w' = w"
    using extras_prefixes_origin [OF assms(1), of ps 0 Map.empty "extraKey p k" w]
    by (simp add: getUserExtras_def)
  with w show ?thesis by blast
qed

lemma getUserExtras_agreeing_writers:
  assumes "wf_Header hs" and "p \<in> set ps" and "(k, v) \<in> set (entries hs)"
    and "hasPrefixIgnoreCase k p"
    and "\<forall>p'\<in>set ps. \<forall>(k', w)\<in>set (entries hs).
           hasPrefixIgnoreCase k' p' \<and> extraKey p' k' = extraKey p k \<longrightarrow> w = v"
  shows "getUserExtras hs ps (extraKey p k) = Some v"
proof -
  have "\<exists>p'\<in>set ps. \<exists>(k', w)\<in>set (entries hs).
          hasPrefixIgnoreCase k' p' \<and> extraKey p' k' = extraKey p k"
    using assms(2-4) by blast
  then show ?thesis
    unfolding getUserExtras_def extras_prefixes_all_writers [OF assms(1,5)] by simp
qed

text \<open>
  C8 does not hold for every matching header: \<open>X-Remote-Extra-A\<close> and
  \<open>X-Remote-Extra-%61\<close> both match the prefix and both give the key \<open>a\<close>; whichever
  of the two the loop visits first, its values are not in the result.
\<close>

theorem getUserExtras_overwritten_counterexample:
  "hasPrefixIgnoreCase ''X-Remote-Extra-A'' ''X-Remote-Extra-'' \<and>
   extraKey ''X-Remote-Extra-'' ''X-Remote-Extra-A'' = ''a'' \<and>
   getUserExtras
     (visited_headers [(''X-Remote-Extra-A'', [''1'']), (''X-Remote-Extra-%61'', [''2''])]
        [(''X-Remote-Extra-A'', [''1'']), (''X-Remote-Extra-%61'', [''2''])])
     [''X-Remote-Extra-''] ''a'' = Some [''2''] \<and>
   hasPrefixIgnoreCase ''X-Remote-Extra-%61'' ''X-Remote-Extra-'' \<and>
   extraKey ''X-Remote-Extra-'' ''X-Remote-Extra-%61'' = ''a'' \<and>
   getUserExtras
     (visited_headers [(''X-Remote-Extra-A'', [''1'']), (''X-Remote-Extra-%61'', [''2''])]
        [(''X-Remote-Extra-%61'', [''2'']), (''X-Remote-Extra-A'', [''1''])])
     [''X-Remote-Extra-''] ''a'' = Some [''1''] \<and>
   ascii ''X-Remote-Extra-A'' \<and> ascii ''X-Remote-Extra-%61'' \<and> ascii ''X-Remote-Extra-''"
  by (simp add: getUserExtras_def hasPrefixIgnoreCase_def unescapeExtraKey_def ToLower_def
      byte_eval header_eval ascii_def)

text \<open>
  C8, as the code has it, for ASCII header names and prefixes: a header \<open>k\<close> that matches
  a configured prefix \<open>p\<close> is written with all its values under the key made by dropping
  the prefix, lower-casing and percent-decoding, the lower-cased text itself when the
  decoding fails. The key is in the result in every case, with the values of a header that
  gives this key; the values are those of \<open>k\<close> itself when no later write (a header that
  the pass of \<open>p\<close> visits after \<open>k\<close>, or any header in the pass of a later prefix) gives
  the same key, and also when all headers that give this key carry the same values. A
  later write to the same key replaces them.
\<close>

theorem getUserExtras_records_values:
  assumes "wf_Header hs" and "p \<in> set ps" and "(k, v) \<in> set (entries hs)"
    and "hasPrefixIgnoreCase k p"
    and "list_all ascii (map fst (entries hs))" and "list_all ascii ps"
  shows
    "extraKey p k =
       (case PathUnescape (ToLower (drop (length p) k)) of
          None \<Rightarrow> ToLower (drop (length p) k)
        | Some key \<Rightarrow> key) \<and>
     (\<exists>w. getUserExtras hs ps (extraKey p k) = Some w \<and>
          (\<exists>p'\<in>set ps. \<exists>(k', w')\<in>set (entries hs).
             hasPrefixIgnoreCase k' p' \<and> extraKey p' k' = extraKey p k \<and> w' = w)) \<and>
     (ps = pb @ p # pa \<and> visits hs (length pb) = hb @ (k, v) # ha \<and>
      (\<forall>(k', w)\<in>set ha. \<not> (hasPrefixIgnoreCase k' p \<and> extraKey p k' = extraKey p k)) \<and>
      (\<forall>p'\<in>set pa. \<forall>(k', w)\<in>set (entries hs).
         \<not> (hasPrefixIgnoreCase k' p' \<and> extraKey p' k' = extraKey p k)) \<longrightarrow>
        getUserExtras hs ps (extraKey p k) = Some v) \<and>
     ((\<forall>p'\<in>set ps. \<forall>(k', w)\<in>set (entries hs).
         hasPrefixIgnoreCase k' p' \<and> extraKey p' k' = extraKey p k \<longrightarrow> w = v) \<longrightarrow>
        getUserExtras hs ps (extraKey p k) = Some v)"
proof (intro conjI impI)
  show "extraKey p k =
       (case PathUnescape (ToLower (drop (length p) k)) of
          None \<Rightarrow> ToLower (drop (length p) k)
        | Some key \<Rightarrow> key)"
    by (simp add: unescapeExtraKey_def)
  show "\<exists>w. getUserExtras hs ps (extraKey p k) = Some w \<and>
          (\<exists>p'\<in>set ps. \<exists>(k', w')\<in>set (entries hs).
             hasPrefixIgnoreCase k' p' \<and> extraKey p' k' = extraKey p k \<and> w' = w)"
    using assms(1-4) by (rule getUserExtras_present)
next
  assume "ps = pb @ p # pa \<and> visits hs (length pb) = hb @ (k, v) # ha \<and>
      (\<forall>(k', w)\<in>set ha. \<not> (hasPrefixIgnoreCase k' p \<and> extraKey p k' = extraKey p k)) \<and>
      (\<forall>p'\<in>set pa. \<forall>(k', w)\<in>set (entries hs).
         \<not> (hasPrefixIgnoreCase k' p' \<and> extraKey p' k' = extraKey p k))"
  then show "getUserExtras hs ps (extraKey p k) = Some v"
    unfolding getUserExtras_def
    using extras_last_write [OF assms(1), of ps pb p pa 0 hb k v ha Map.empty] assms(4)
    by simp
next
  assume "\<forall>p'\<in>set ps. \<forall>(k', w)\<in>set (entries hs).
         hasPrefixIgnoreCase k' p' \<and> extraKey p' k' = extraKey p k \<longrightarrow> w = v"
  with assms(1-4) show "getUserExtras hs ps (extraKey p k) = Some v"
    by (rule getUserExtras_agreeing_writers)
qed

theorem getUserExtras_records_values_witness:
  "wf_Header (ordered_headers
     [(''X-Remote-User'', [''alice'']), (''X-Remote-Extra-Scope'', [''read'', ''write''])]) \<and>
   list_all ascii [''X-Remote-User'', ''X-Remote-Extra-Scope''] \<and>
   list_all ascii [''X-Remote-Extra-''] \<and>
   hasPrefixIgnoreCase ''X-Remote-Extra-Scope'' ''X-Remote-Extra-'' \<and>
   extraKey ''X-Remote-Extra-'' ''X-Remote-Extra-Scope'' = ''scope'' \<and>
   getUserExtras
     (ordered_headers
        [(''X-Remote-User'', [''alice'']), (''X-Remote-Extra-Scope'', [''read'', ''write''])])
     [''X-Remote-Extra-''] ''scope'' = Some [''read'', ''write''] \<and>
   hasPrefixIgnoreCase ''X-Remote-Extra-%ZZ'' ''x-remote-extra-'' \<and>
   PathUnescape (ToLower ''%ZZ'') = None \<and>
   extraKey ''x-remote-extra-'' ''X-Remote-Extra-%ZZ'' = ''%zz'' \<and>
   getUserExtras (ordered_headers [(''X-Remote-Extra-%ZZ'', [''v''])]) [''x-remote-extra-'']
     ''%zz'' = Some [''v'']"
proof -
  have m: "hasPrefixIgnoreCase ''X-Remote-Extra-Scope'' ''X-Remote-Extra-''"
    "hasPrefixIgnoreCase ''X-Remote-Extra-%ZZ'' ''x-remote-extra-''"
    "\<not> hasPrefixIgnoreCase ''X-Remote-User'' ''X-Remote-Extra-''"
    by (simp_all add: hasPrefixIgnoreCase_def byte_eval)
  have k: "unescapeExtraKey (ToLower ''Scope'') = ''scope''"
    "PathUnescape (ToLower ''%ZZ'') = None"
    "unescapeExtraKey (ToLower ''%ZZ'') = ''%zz''"
    by (simp_all add: unescapeExtraKey_def ToLower_def byte_eval)
  have w: "wf_Header (ordered_headers
     [(''X-Remote-User'', [''alice'']), (''X-Remote-Extra-Scope'', [''read'', ''write''])])"
    "wf_Header (ordered_headers [(''X-Remote-Extra-%ZZ'', [''v''])])"
    by (simp_all add: wf_Header_def header_eval)
  have a: "list_all ascii [''X-Remote-User'', ''X-Remote-Extra-Scope'']"
    "list_all ascii [''X-Remote-Extra-'']" "list_all ascii [''X-Remote-Extra-%ZZ'']"
    "list_all ascii [''x-remote-extra-'']"
    by (simp_all add: ascii_def)
  have 1: "getUserExtras
     (ordered_headers
        [(''X-Remote-User'', [''alice'']), (''X-Remote-Extra-Scope'', [''read'', ''write''])])
     [''X-Remote-Extra-''] ''scope'' = Some [''read'', ''write'']"
    using getUserExtras_records_values [where p = "''X-Remote-Extra-''"
        and ps = "[''X-Remote-Extra-'']" and k = "''X-Remote-Extra-Scope''"
        and v = "[''read'', ''write'']"
        and hs = "ordered_headers
          [(''X-Remote-User'', [''alice'']), (''X-Remote-Extra-Scope'', [''read'', ''write''])]"
        and hb = "[(''X-Remote-User'', [''alice''])]" and ha = "[]" and pb = "[]" and pa = "[]",
        OF w(1), THEN conjunct2, THEN conjunct2, THEN conjunct1] m(1) a(1,2)
    by (simp add: k header_eval)
  have 2: "getUserExtras (ordered_headers [(''X-Remote-Extra-%ZZ'', [''v''])])
     [''x-remote-extra-''] ''%zz'' = Some [''v'']"
    using getUserExtras_records_values [where p = "''x-remote-extra-''"
        and ps = "[''x-remote-extra-'']" and k = "''X-Remote-Extra-%ZZ''" and v = "[''v'']"
        and hs = "ordered_headers [(''X-Remote-Extra-%ZZ'', [''v''])]"
        and hb = "[]" and ha = "[]" and pb = "[]" and pa = "[]",
        OF w(2), THEN conjunct2, THEN conjunct2, THEN conjunct1] m(2) a(3,4)
    by (simp add: k header_eval)
  show ?thesis
    using m(1,2) w(1) a(1,2) 1 2 by (simp add: k)
qed

section \<open>Order of the header map\<close>

lemma matchHeaders_map_of:
  "map_of (entries hs1) = map_of (entries hs2) \<Longrightarrow> matchHeaders hs1 names = matchHeaders hs2 names"
proof -
  assume "map_of (entries hs1) = map_of (entries hs2)"
  then have "matchHeaders_range hs1 ns t = matchHeaders_range hs2 ns t" for ns t
    by (induction ns) (auto split: option.splits)
  then show ?thesis
    by (simp add: matchHeaders_def)
qed

lemma extras_range_order:
  assumes d: "distinct (map fst hs1)" and s: "set hs1 = set hs2"
    and i: "inj_on (extraKey p) {k \<in> fst ` set hs1. hasPrefixIgnoreCase k p}"
  shows "extras_range p hs1 m = extras_range p hs2 m"
proof (rule ext)
  fix x
  show "extras_range p hs1 m x = extras_range p hs2 m x"
  proof (cases "\<exists>(k, w)\<in>set hs1. hasPrefixIgnoreCase k p \<and> extraKey p k = x")
    case True
    then obtain k v where kv: "(k, v) \<in> set hs1" "hasPrefixIgnoreCase k p" "extraKey p k = x"
      by blast
    have all: "\<forall>(k', w)\<in>set hs1. hasPrefixIgnoreCase k' p \<and> extraKey p k' = x \<longrightarrow> w = v"
    proof clarify
      fix k' w
      assume w: "(k', w) \<in> set hs1" "hasPrefixIgnoreCase k' p" "x = extraKey p k'"
      have "k \<in> {k \<in> fst ` set hs1. hasPrefixIgnoreCase k p}"
        "k' \<in> {k \<in> fst ` set hs1. hasPrefixIgnoreCase k p}"
        using kv w by force+
      with i kv(3) w(3) have "k' = k"
        by (auto dest: inj_onD)
      with d kv(1) w(1) show "w = v"
        by (auto dest: eq_key_imp_eq_value)
    qed
    show ?thesis
      unfolding extras_range_all_writers [OF all]
        extras_range_all_writers [OF all [unfolded s]] s
      by (rule refl)
  next
    case False
    then have n: "\<forall>(k, w)\<in>set hs1. \<not> (hasPrefixIgnoreCase k p \<and> extraKey p k = x)"
      by blast
    show ?thesis
      unfolding extras_range_no_writer [OF n] extras_range_no_writer [OF n [unfolded s]]
      by (rule refl)
  qed
qed

lemma extras_prefixes_order:
  assumes "wf_Header h1" and "wf_Header h2" and "set (entries h1) = set (entries h2)"
    and "\<forall>p\<in>set ps. inj_on (extraKey p) {k \<in> fst ` set (entries h1). hasPrefixIgnoreCase k p}"
  shows "extras_prefixes ps h1 i m = extras_prefixes ps h2 j m"
  using assms(4)
proof (induction ps arbitrary: i j m)
  case Nil
  then show ?case by simp
next
  case (Cons p ps)
  have "extras_range p (visits h1 i) m = extras_range p (visits h2 j) m"
    using Cons.prems assms(3)
    by (intro extras_range_order)
      (simp_all add: wf_Header_visits [OF assms(1)] wf_Header_visits [OF assms(2)])
  moreover have "extras_prefixes ps h1 (Suc i) (extras_range p (visits h2 j) m) =
                 extras_prefixes ps h2 (Suc j) (extras_range p (visits h2 j) m)"
    using Cons.prems by (intro Cons.IH) simp
  ultimately show ?case by simp
qed

text \<open>
  C4 does not hold when two header names give the same key under one prefix: the two
  header values below are the same map, visited in the two possible orders, and the extras
  differ at the key \<open>a\<close>.
\<close>

theorem getUserExtras_order_counterexample:
  "wf_Header
     (visited_headers [(''X-Remote-Extra-A'', [''1'']), (''X-Remote-Extra-%61'', [''2''])]
        [(''X-Remote-Extra-A'', [''1'']), (''X-Remote-Extra-%61'', [''2''])]) \<and>
   wf_Header
     (visited_headers [(''X-Remote-Extra-A'', [''1'']), (''X-Remote-Extra-%61'', [''2''])]
        [(''X-Remote-Extra-%61'', [''2'']), (''X-Remote-Extra-A'', [''1''])]) \<and>
   entries
     (visited_headers [(''X-Remote-Extra-A'', [''1'']), (''X-Remote-Extra-%61'', [''2''])]
        [(''X-Remote-Extra-A'', [''1'']), (''X-Remote-Extra-%61'', [''2''])]) =
   entries
     (visited_headers [(''X-Remote-Extra-A'', [''1'']), (''X-Remote-Extra-%61'', [''2''])]
        [(''X-Remote-Extra-%61'', [''2'']), (''X-Remote-Extra-A'', [''1''])]) \<and>
   ascii ''X-Remote-Extra-A'' \<and> ascii ''X-Remote-Extra-%61'' \<and> ascii ''X-Remote-Extra-'' \<and>
   getUserExtras
     (visited_headers [(''X-Remote-Extra-A'', [''1'']), (''X-Remote-Extra-%61'', [''2''])]
        [(''X-Remote-Extra-A'', [''1'']), (''X-Remote-Extra-%61'', [''2''])])
     [''X-Remote-Extra-''] ''a'' = Some [''2''] \<and>
   getUserExtras
     (visited_headers [(''X-Remote-Extra-A'', [''1'']), (''X-Remote-Extra-%61'', [''2''])]
        [(''X-Remote-Extra-%61'', [''2'']), (''X-Remote-Extra-A'', [''1''])])
     [''X-Remote-Extra-''] ''a'' = Some [''1''] \<and>
   getUserExtras
     (visited_headers [(''X-Remote-Extra-A'', [''1'']), (''X-Remote-Extra-%61'', [''2''])]
        [(''X-Remote-Extra-A'', [''1'']), (''X-Remote-Extra-%61'', [''2''])])
     [''X-Remote-Extra-''] \<noteq>
   getUserExtras
     (visited_headers [(''X-Remote-Extra-A'', [''1'']), (''X-Remote-Extra-%61'', [''2''])]
        [(''X-Remote-Extra-%61'', [''2'']), (''X-Remote-Extra-A'', [''1''])])
     [''X-Remote-Extra-'']"
proof -
  have w: "wf_Header
     (visited_headers [(''X-Remote-Extra-A'', [''1'']), (''X-Remote-Extra-%61'', [''2''])]
        [(''X-Remote-Extra-A'', [''1'']), (''X-Remote-Extra-%61'', [''2''])])"
    "wf_Header
     (visited_headers [(''X-Remote-Extra-A'', [''1'']), (''X-Remote-Extra-%61'', [''2''])]
        [(''X-Remote-Extra-%61'', [''2'']), (''X-Remote-Extra-A'', [''1''])])"
    by (auto simp: wf_Header_def header_eval)
  have s: "ascii ''X-Remote-Extra-A''" "ascii ''X-Remote-Extra-%61''" "ascii ''X-Remote-Extra-''"
    by (simp_all add: ascii_def)
  have a: "getUserExtras
     (visited_headers [(''X-Remote-Extra-A'', [''1'']), (''X-Remote-Extra-%61'', [''2''])]
        [(''X-Remote-Extra-A'', [''1'']), (''X-Remote-Extra-%61'', [''2''])])
     [''X-Remote-Extra-''] ''a'' = Some [''2'']"
    by (simp add: getUserExtras_def hasPrefixIgnoreCase_def unescapeExtraKey_def ToLower_def
        byte_eval header_eval)
  have b: "getUserExtras
     (visited_headers [(''X-Remote-Extra-A'', [''1'']), (''X-Remote-Extra-%61'', [''2''])]
        [(''X-Remote-Extra-%61'', [''2'']), (''X-Remote-Extra-A'', [''1''])])
     [''X-Remote-Extra-''] ''a'' = Some [''1'']"
    by (simp add: getUserExtras_def hasPrefixIgnoreCase_def unescapeExtraKey_def ToLower_def
        byte_eval header_eval)
  have "getUserExtras
     (visited_headers [(''X-Remote-Extra-A'', [''1'']), (''X-Remote-Extra-%61'', [''2''])]
        [(''X-Remote-Extra-A'', [''1'']), (''X-Remote-Extra-%61'', [''2''])])
     [''X-Remote-Extra-''] \<noteq>
   getUserExtras
     (visited_headers [(''X-Remote-Extra-A'', [''1'']), (''X-Remote-Extra-%61'', [''2''])]
        [(''X-Remote-Extra-%61'', [''2'']), (''X-Remote-Extra-A'', [''1''])])
     [''X-Remote-Extra-'']"
  proof
    assume "getUserExtras
     (visited_headers [(''X-Remote-Extra-A'', [''1'']), (''X-Remote-Extra-%61'', [''2''])]
        [(''X-Remote-Extra-A'', [''1'']), (''X-Remote-Extra-%61'', [''2''])])
     [''X-Remote-Extra-''] =
   getUserExtras
     (visited_headers [(''X-Remote-Extra-A'', [''1'']), (''X-Remote-Extra-%61'', [''2''])]
        [(''X-Remote-Extra-%61'', [''2'']), (''X-Remote-Extra-A'', [''1''])])
     [''X-Remote-Extra-'']"
    then have "getUserExtras
     (visited_headers [(''X-Remote-Extra-A'', [''1'']), (''X-Remote-Extra-%61'', [''2''])]
        [(''X-Remote-Extra-A'', [''1'']), (''X-Remote-Extra-%61'', [''2''])])
     [''X-Remote-Extra-''] ''a'' =
   getUserExtras
     (visited_headers [(''X-Remote-Extra-A'', [''1'']), (''X-Remote-Extra-%61'', [''2''])]
        [(''X-Remote-Extra-%61'', [''2'']), (''X-Remote-Extra-A'', [''1''])])
     [''X-Remote-Extra-''] ''a''"
      by simp
    with a b show False by simp
  qed
  with w s a b show ?thesis
    by (simp add: header_eval)
qed

text \<open>
  C4, as the code has it, for ASCII header names and prefixes: two runs on the same header
  map are two well-formed header values with the same lookup, whatever the orders in which
  their loops visit the entries. The user and the groups come from lookups and are
  determined by the map and the configured names. The extras are determined by the map and
  the prefixes whenever, under each prefix, distinct matching header names give distinct
  keys; when two names give the same key under one prefix, the values that stay are those
  of the header visited last, and two runs on the same map can differ.
\<close>

theorem identity_extraction_deterministic:
  assumes "wf_Header hs1" and "wf_Header hs2"
    and "map_of (entries hs1) = map_of (entries hs2)"
    and "list_all ascii (map fst (entries hs1))" and "list_all ascii ps"
  shows
    "matchHeaders hs1 names = matchHeaders hs2 names \<and>
     ((\<forall>p\<in>set ps. inj_on (extraKey p)
                     {k \<in> fst ` set (entries hs1). hasPrefixIgnoreCase k p}) \<longrightarrow>
        getUserExtras hs1 ps = getUserExtras hs2 ps)"
proof (intro conjI impI)
  show "matchHeaders hs1 names = matchHeaders hs2 names"
    using assms(3) by (rule matchHeaders_map_of)
next
  assume i: "\<forall>p\<in>set ps. inj_on (extraKey p)
                     {k \<in> fst ` set (entries hs1). hasPrefixIgnoreCase k p}"
  have "set (entries hs1) = set (entries hs2)"
    using assms(1-3) by (simp add: wf_Header_def map_of_inject_set)
  with assms(1,2) show "getUserExtras hs1 ps = getUserExtras hs2 ps"
    unfolding getUserExtras_def using i by (rule extras_prefixes_order)
qed

theorem identity_extraction_deterministic_witness:
  "wf_Header (ordered_headers
     [(''X-Remote-User'', [''alice'']), (''X-Remote-Extra-Scope'', [''read''])]) \<and>
   wf_Header (ordered_headers
     [(''X-Remote-Extra-Scope'', [''read'']), (''X-Remote-User'', [''alice''])]) \<and>
   map_of (entries (ordered_headers
     [(''X-Remote-User'', [''alice'']), (''X-Remote-Extra-Scope'', [''read''])])) =
   map_of (entries (ordered_headers
     [(''X-Remote-Extra-Scope'', [''read'']), (''X-Remote-User'', [''alice''])])) \<and>
   list_all ascii [''X-Remote-User'', ''X-Remote-Extra-Scope''] \<and>
   list_all ascii [''X-Remote-Extra-''] \<and>
   inj_on (extraKey ''X-Remote-Extra-'')
     {k \<in> fst ` set [(''X-Remote-User'', [''alice'']), (''X-Remote-Extra-Scope'', [''read''])].
        hasPrefixIgnoreCase k ''X-Remote-Extra-''} \<and>
   matchHeaders (ordered_headers
     [(''X-Remote-User'', [''alice'']), (''X-Remote-Extra-Scope'', [''read''])])
     [''X-Remote-User''] =
   matchHeaders (ordered_headers
     [(''X-Remote-Extra-Scope'', [''read'']), (''X-Remote-User'', [''alice''])])
     [''X-Remote-User''] \<and>
   getUserExtras (ordered_headers
     [(''X-Remote-User'', [''alice'']), (''X-Remote-Extra-Scope'', [''read''])])
     [''X-Remote-Extra-''] =
   getUserExtras (ordered_headers
     [(''X-Remote-Extra-Scope'', [''read'']), (''X-Remote-User'', [''alice''])])
     [''X-Remote-Extra-'']"
proof -
  have w: "wf_Header (ordered_headers
     [(''X-Remote-User'', [''alice'']), (''X-Remote-Extra-Scope'', [''read''])])"
    "wf_Header (ordered_headers
     [(''X-Remote-Extra-Scope'', [''read'']), (''X-Remote-User'', [''alice''])])"
    by (simp_all add: wf_Header_def header_eval)
  have m: "map_of (entries (ordered_headers
     [(''X-Remote-User'', [''alice'']), (''X-Remote-Extra-Scope'', [''read''])])) =
   map_of (entries (ordered_headers
     [(''X-Remote-Extra-Scope'', [''read'']), (''X-Remote-User'', [''alice''])]))"
    by (rule ext) (simp add: header_eval)
  have a: "list_all ascii (map fst (entries (ordered_headers
     [(''X-Remote-User'', [''alice'']), (''X-Remote-Extra-Scope'', [''read''])])))"
    "list_all ascii [''X-Remote-Extra-'']"
    by (simp_all add: ascii_def header_eval)
  have "\<not> hasPrefixIgnoreCase ''X-Remote-User'' ''X-Remote-Extra-''"
    by (simp add: hasPrefixIgnoreCase_def byte_eval)
  then have
    "{k \<in> fst ` set [(''X-Remote-User'', [''alice'']), (''X-Remote-Extra-Scope'', [''read''])].
        hasPrefixIgnoreCase k ''X-Remote-Extra-''} \<subseteq> {''X-Remote-Extra-Scope''}"
    by auto
  then have i: "inj_on (extraKey ''X-Remote-Extra-'')
     {k \<in> fst ` set [(''X-Remote-User'', [''alice'']), (''X-Remote-Extra-Scope'', [''read''])].
        hasPrefixIgnoreCase k ''X-Remote-Extra-''}"
    by (rule inj_on_subset [rotated]) simp
  have t: "matchHeaders (ordered_headers
     [(''X-Remote-User'', [''alice'']), (''X-Remote-Extra-Scope'', [''read''])])
     [''X-Remote-User''] =
   matchHeaders (ordered_headers
     [(''X-Remote-Extra-Scope'', [''read'']), (''X-Remote-User'', [''alice''])])
     [''X-Remote-User''] \<and>
   getUserExtras (ordered_headers
     [(''X-Remote-User'', [''alice'']), (''X-Remote-Extra-Scope'', [''read''])])
     [''X-Remote-Extra-''] =
   getUserExtras (ordered_headers
     [(''X-Remote-Extra-Scope'', [''read'']), (''X-Remote-User'', [''alice''])])
     [''X-Remote-Extra-'']"
    using identity_extraction_deterministic [OF w m a, of "[''X-Remote-User'']"] i
    by (simp add: header_eval)
  show ?thesis
    using w m a i t by (simp add: header_eval)
qed

end
